theory Spec2Isabelle
  imports Complex_Main "HOL-Library.Char_ord" "HOL-Library.List_Lexorder"
begin

section \<open>JavaScript values\<close>

text \<open>
  A JavaScript number is an IEEE-754 double: a finite number, one of the two infinities,
  or NaN. The model carries a finite number by its value, a real (the two zeros are one
  value).
\<close>

datatype jsnum = Finite real | PosInfinity | NegInfinity | NaN

text \<open>
  The result of an arithmetic operation on finite numbers is the exact result rounded to
  a double, the Number value of ECMAScript: the double nearest to it, the one with the
  even significand when two are equally near, and an infinity when the magnitude rounds
  to \<open>2 ^ 1024\<close>.

  Magnitudes are counted in units of \<open>2 ^ - 1074\<close>, the least positive double. The
  doubles are the multiples \<open>n * 2 ^ j\<close> of the unit with \<open>n < 2 ^ 53\<close> and
  \<open>j \<le> 2045\<close>; a magnitude \<open>a\<close> of at least \<open>2 ^ 53\<close> units lies between
  \<open>2 ^ (52 + j)\<close> and \<open>2 ^ (53 + j)\<close> for one \<open>j\<close>, which \<open>ulp_exponent\<close> counts,
  and is rounded to a multiple of \<open>2 ^ j\<close>; a smaller one is rounded to a multiple of
  the unit.
\<close>

definition round_half_even :: "real \<Rightarrow> int" where
  "round_half_even q =
     (let n = \<lfloor>q\<rfloor>
      in if q - of_int n < 1 / 2 then n
         else if 1 / 2 < q - of_int n then n + 1
         else if even n then n else n + 1)"

definition ulp_exponent :: "real \<Rightarrow> nat" where
  "ulp_exponent a = length (filter (\<lambda>k. 2 ^ k \<le> a) [53..<2098])"

definition Number_value :: "real \<Rightarrow> jsnum" where
  "Number_value x =
     (let a = \<bar>x\<bar> * 2 ^ 1074;
          j = ulp_exponent a;
          n = round_half_even (a / 2 ^ j)
      in if 2 ^ 2098 \<le> n * 2 ^ j then (if x < 0 then NegInfinity else PosInfinity)
         else Finite (sgn x * (of_int (n * 2 ^ j) / 2 ^ 1074)))"

text \<open>
  A JavaScript string is a \<open>string\<close>, a list of characters. What the code does with
  strings is to compare them, to test them for emptiness and to join them; the functions
  of the platform that depend on Unicode (\<open>toUpperCase\<close>, \<open>localeCompare\<close>) are
  parameters of the functions that call them, as are \<^verbatim>\<open>JSON.parse\<close> and
  \<^verbatim>\<open>JSON.stringify\<close>.

  The result of \<^verbatim>\<open>JSON.parse\<close> (and of \<^verbatim>\<open>Response.json\<close>): an object is the list of
  its own properties in property order; \<open>map_of\<close> reads a property.
\<close>

datatype json =
    JNull
  | JBool bool
  | JNum jsnum
  | JStr string
  | JArr "json list"
  | JObj "(string \<times> json) list"

text \<open>The exceptions the modelled code can meet.\<close>

datatype js_error = SecurityError | QuotaExceededError | SyntaxError | RangeError

section \<open>localStorage\<close>

text \<open>
  The browser's key-value store. Reading throws when the store is not accessible, and
  writing throws when it is not accessible or its quota is used up; the two flags say
  which of the calls throw in the state at hand.
\<close>

record storage =
  entries :: "string \<Rightarrow> string option"
  readable :: bool
  writable :: bool

definition getItem :: "storage \<Rightarrow> string \<Rightarrow> js_error + string option" where
  "getItem st k = (if readable st then Inr (entries st k) else Inl SecurityError)"


section \<open>utils/storage.ts\<close>

record WatchPair =
  base :: string
  target :: string

definition KEY :: string where
  "KEY = ''fx_watchlist_v1''"

text \<open>
  \<^verbatim>\<open>isPair(x) = x && typeof x.base === "string" && typeof x.target === "string"\<close>,
  a type guard: where it holds, the entry is read as a \<open>WatchPair\<close>. \<open>null\<close>,
  \<open>false\<close>, \<open>0\<close> and the empty string are falsy; every other value that is not an
  object (a number, \<open>true\<close>, a string, an array) has no property named \<open>base\<close> or
  \<open>target\<close>, so the \<open>typeof\<close> is \<open>"undefined"\<close>.
\<close>

fun isPair :: "json \<Rightarrow> WatchPair option" where
  "isPair (JObj fs) =
     (case map_of fs ''base'' of
        Some (JStr b) \<Rightarrow>
          (case map_of fs ''target'' of
             Some (JStr t) \<Rightarrow> Some \<lparr>base = b, target = t\<rparr>
           | _ \<Rightarrow> None)
      | _ \<Rightarrow> None)"
| "isPair _ = None"

text \<open>
  A JavaScript \<open>Map\<close> keeps its keys in insertion order; \<open>set\<close> on a key that is
  present replaces the value where the key stands, and appends the key otherwise.
\<close>

fun Map_set :: "('k \<times> 'v) list \<Rightarrow> 'k \<Rightarrow> 'v \<Rightarrow> ('k \<times> 'v) list" where
  "Map_set [] k v = [(k, v)]"
| "Map_set ((k', v') # m) k v =
     (if k' = k then (k', v) # m else (k', v') # Map_set m k v)"

definition Map_values :: "('k \<times> 'v) list \<Rightarrow> 'v list" where
  "Map_values m = map snd m"

definition pair_key :: "WatchPair \<Rightarrow> string" where
  "pair_key p = base p @ ''-'' @ target p"

definition default_watchlist :: "WatchPair list" where
  "default_watchlist = [\<lparr>base = ''USD'', target = ''MXN''\<rparr>]"

text \<open>
  \<^verbatim>\<open>parsed.filter(isPair).map(p => ({base: p.base.toUpperCase(), target: ...}))\<close>.
  \<open>toUpperCase\<close> is the platform's \<^verbatim>\<open>String.prototype.toUpperCase\<close>, a parameter.
\<close>

definition upper_pairs :: "(string \<Rightarrow> string) \<Rightarrow> json list \<Rightarrow> WatchPair list" where
  "upper_pairs toUpperCase parsed =
     map (\<lambda>p. \<lparr>base = toUpperCase (base p), target = toUpperCase (target p)\<rparr>)
       (List.map_filter isPair parsed)"

text \<open>The \<^verbatim>\<open>for (const p of pairs)\<close> loop over the map \<open>uniq\<close>.\<close>

fun uniq_loop :: "(string \<times> WatchPair) list \<Rightarrow> WatchPair list \<Rightarrow> (string \<times> WatchPair) list" where
  "uniq_loop uniq [] = uniq"
| "uniq_loop uniq (p # ps) =
     (if base p = [] \<or> target p = [] \<or> base p = target p then uniq_loop uniq ps
      else uniq_loop (Map_set uniq (pair_key p) p) ps)"

definition uniq_list :: "(string \<Rightarrow> string) \<Rightarrow> json list \<Rightarrow> WatchPair list" where
  "uniq_list toUpperCase parsed = Map_values (uniq_loop [] (upper_pairs toUpperCase parsed))"

text \<open>
  The body of the \<^verbatim>\<open>try\<close> block of \<open>loadWatchlist\<close>. \<open>JSON_parse\<close> is the platform's
  \<^verbatim>\<open>JSON.parse\<close>, \<open>None\<close> where it throws.
\<close>

definition loadWatchlist_try ::
  "(string \<Rightarrow> string) \<Rightarrow> (string \<Rightarrow> json option) \<Rightarrow> storage \<Rightarrow> js_error + WatchPair list" where
  "loadWatchlist_try toUpperCase JSON_parse st =
     (case getItem st KEY of
        Inl e \<Rightarrow> Inl e
      | Inr None \<Rightarrow> Inr default_watchlist
      | Inr (Some raw) \<Rightarrow>
          if raw = [] then Inr default_watchlist
          else (case JSON_parse raw of
                  None \<Rightarrow> Inl SyntaxError
                | Some (JArr parsed) \<Rightarrow>
                    (let list = uniq_list toUpperCase parsed
                     in Inr (if length list \<noteq> 0 then list else default_watchlist))
                | Some _ \<Rightarrow> Inr default_watchlist))"

definition loadWatchlist ::
  "(string \<Rightarrow> string) \<Rightarrow> (string \<Rightarrow> json option) \<Rightarrow> storage \<Rightarrow> WatchPair list" where
  "loadWatchlist toUpperCase JSON_parse st =
     (case loadWatchlist_try toUpperCase JSON_parse st of
        Inl e \<Rightarrow> default_watchlist
      | Inr list \<Rightarrow> list)"



section \<open>pages/Watchlist.tsx\<close>

text \<open>
  The state of the component: the watched pairs, the two select boxes and the message.
\<close>

record watchlist_state =
  pairs :: "WatchPair list"
  base_sel :: string
  target_sel :: string
  msg :: "string option"

text \<open>The three messages of \<open>onAdd\<close>, under the names of the validation errors.\<close>

definition EmptyField :: string where
  "EmptyField = ''Please select both currencies.''"

definition SamePair :: string where
  "SamePair = ''Choose two different currencies.''"

definition DuplicatePair :: string where
  "DuplicatePair = ''That pair is already in your watchlist.''"

definition onAdd :: "(string \<Rightarrow> string) \<Rightarrow> watchlist_state \<Rightarrow> watchlist_state" where
  "onAdd toUpperCase s =
     (let s0 = s\<lparr>msg := None\<rparr>;
          b = toUpperCase (base_sel s);
          t = toUpperCase (target_sel s)
      in if b = [] \<or> t = [] then s0\<lparr>msg := Some EmptyField\<rparr>
         else if b = t then s0\<lparr>msg := Some SamePair\<rparr>
         else let key = b @ ''-'' @ t;
                  key_exists = list_ex (\<lambda>p. base p @ ''-'' @ target p = key) (pairs s)
              in if key_exists then s0\<lparr>msg := Some DuplicatePair\<rparr>
                 else s0\<lparr>pairs := \<lparr>base = b, target = t\<rparr> # pairs s0\<rparr>)"

definition onRemove :: "watchlist_state \<Rightarrow> WatchPair \<Rightarrow> watchlist_state" where
  "onRemove s p =
     s\<lparr>pairs := filter (\<lambda>x. \<not> (base x = base p \<and> target x = target p)) (pairs s)\<rparr>"

section \<open>pages/History.tsx: dates\<close>

text \<open>
  A \<open>Date\<close> holds a time value, the milliseconds since 1970-01-01T00:00Z, or NaN (the
  invalid date, \<open>None\<close> here). The functions below are the abstract operations of
  ECMAScript (ECMA-262, Date objects) behind \<open>getUTCFullYear\<close>, \<open>getUTCMonth\<close>,
  \<open>getUTCDate\<close> and \<open>setUTCDate\<close>.
\<close>

definition msPerDay :: int where
  "msPerDay = 86400000"

definition Day :: "int \<Rightarrow> int" where
  "Day t = t div msPerDay"

definition TimeWithinDay :: "int \<Rightarrow> int" where
  "TimeWithinDay t = t mod msPerDay"

definition DaysInYear :: "int \<Rightarrow> int" where
  "DaysInYear y =
     (if y mod 4 \<noteq> 0 then 365 else if y mod 100 \<noteq> 0 then 366
      else if y mod 400 \<noteq> 0 then 365 else 366)"

definition DayFromYear :: "int \<Rightarrow> int" where
  "DayFromYear y =
     365 * (y - 1970) + (y - 1969) div 4 - (y - 1901) div 100 + (y - 1601) div 400"

text \<open>
  \<open>YearFromTime t\<close> is the largest year whose first day is not after \<open>t\<close>; it is
  computed from an estimate that is off by at most one.
\<close>

definition YearFromTime :: "int \<Rightarrow> int" where
  "YearFromTime t =
     (let d = Day t; y0 = 1970 + (400 * d) div 146097
      in if DayFromYear (y0 + 1) \<le> d then y0 + 1
         else if DayFromYear y0 \<le> d then y0 else y0 - 1)"

definition InLeapYear :: "int \<Rightarrow> int" where
  "InLeapYear t = (if DaysInYear (YearFromTime t) = 366 then 1 else 0)"

definition DayWithinYear :: "int \<Rightarrow> int" where
  "DayWithinYear t = Day t - DayFromYear (YearFromTime t)"

definition MonthFromTime :: "int \<Rightarrow> int" where
  "MonthFromTime t =
     (let d = DayWithinYear t; l = InLeapYear t
      in if d < 31 then 0 else if d < 59 + l then 1 else if d < 90 + l then 2
         else if d < 120 + l then 3 else if d < 151 + l then 4 else if d < 181 + l then 5
         else if d < 212 + l then 6 else if d < 243 + l then 7 else if d < 273 + l then 8
         else if d < 304 + l then 9 else if d < 334 + l then 10 else 11)"

definition DateFromTime :: "int \<Rightarrow> int" where
  "DateFromTime t =
     (let d = DayWithinYear t; l = InLeapYear t; m = MonthFromTime t
      in if m = 0 then d + 1 else if m = 1 then d - 30 else if m = 2 then d - 58 - l
         else if m = 3 then d - 89 - l else if m = 4 then d - 119 - l
         else if m = 5 then d - 150 - l else if m = 6 then d - 180 - l
         else if m = 7 then d - 211 - l else if m = 8 then d - 242 - l
         else if m = 9 then d - 272 - l else if m = 10 then d - 303 - l else d - 333 - l)"

text \<open>
  \<open>MakeDay year month date\<close>: the day number of the first day of the month (the month
  carried into the year), plus \<open>date - 1\<close>.
\<close>

definition month_start :: "int \<Rightarrow> int \<Rightarrow> int" where
  "month_start mn l =
     (if mn = 0 then 0 else if mn = 1 then 31 else if mn = 2 then 59 + l
      else if mn = 3 then 90 + l else if mn = 4 then 120 + l else if mn = 5 then 151 + l
      else if mn = 6 then 181 + l else if mn = 7 then 212 + l else if mn = 8 then 243 + l
      else if mn = 9 then 273 + l else if mn = 10 then 304 + l else 334 + l)"

definition MakeDay :: "int \<Rightarrow> int \<Rightarrow> int \<Rightarrow> int" where
  "MakeDay year month dt =
     (let ym = year + month div 12; mn = month mod 12
      in DayFromYear ym + month_start mn (if DaysInYear ym = 366 then 1 else 0) + dt - 1)"

definition MakeDate :: "int \<Rightarrow> int \<Rightarrow> int" where
  "MakeDate day time = day * msPerDay + time"

definition TimeClip :: "int \<Rightarrow> int option" where
  "TimeClip t = (if \<bar>t\<bar> > 8640000000000000 then None else Some t)"

definition setUTCDate :: "int \<Rightarrow> int \<Rightarrow> int option" where
  "setUTCDate t dt =
     TimeClip (MakeDate (MakeDay (YearFromTime t) (MonthFromTime t) dt) (TimeWithinDay t))"

text \<open>\<open>String(n)\<close> for an integer \<open>n\<close>, and \<open>padStart\<close> with a one-character filler.\<close>

definition digit_char :: "nat \<Rightarrow> char" where
  "digit_char n = ''0123456789'' ! n"

fun decimal :: "nat \<Rightarrow> string" where
  "decimal n = (if n < 10 then [digit_char n] else decimal (n div 10) @ [digit_char (n mod 10)])"

declare decimal.simps [simp del]

definition String_int :: "int \<Rightarrow> string" where
  "String_int i = (if i < 0 then ''-'' @ decimal (nat (- i)) else decimal (nat i))"

definition padStart :: "nat \<Rightarrow> char \<Rightarrow> string \<Rightarrow> string" where
  "padStart n c s = replicate (n - length s) c @ s"

text \<open>
  \<open>isoDateUTC\<close>: on the invalid date every field is NaN, and the template prints
  \<open>NaN-NaN-NaN\<close>.
\<close>

definition isoDateUTC :: "int option \<Rightarrow> string" where
  "isoDateUTC d =
     (case d of
        None \<Rightarrow> ''NaN-NaN-NaN''
      | Some t \<Rightarrow>
          (let y = YearFromTime t;
               m = padStart 2 (CHR ''0'') (String_int (MonthFromTime t + 1));
               day = padStart 2 (CHR ''0'') (String_int (DateFromTime t))
           in String_int y @ ''-'' @ m @ ''-'' @ day))"

text \<open>\<open>daysAgoUTC\<close> reads the clock (\<open>now\<close>) and moves the day of the month back.\<close>

definition daysAgoUTC :: "int \<Rightarrow> int \<Rightarrow> int option" where
  "daysAgoUTC now days = setUTCDate now (DateFromTime now - days)"

datatype Period = P7 | P30 | P90

fun period_days :: "Period \<Rightarrow> int" where
  "period_days P7 = 7"
| "period_days P30 = 30"
| "period_days P90 = 90"

record date_window =
  startISO :: string
  endISO :: string

text \<open>
  The memo that computes \<open>startISO\<close> and \<open>endISO\<close>. It reads the clock twice:
  \<open>now_end\<close> for \<^verbatim>\<open>const end = new Date()\<close>, then \<open>now_start\<close> inside
  \<open>daysAgoUTC\<close>.
\<close>

definition windowFor :: "int \<Rightarrow> int \<Rightarrow> Period \<Rightarrow> date_window" where
  "windowFor now_end now_start period =
     (let end_date = Some now_end;
          start_date = daysAgoUTC now_start (period_days period + 2)
      in \<lparr>startISO = isoDateUTC start_date, endISO = isoDateUTC end_date\<rparr>)"

section \<open>pages/History.tsx: the chart series and its statistics\<close>

text \<open>
  A point of the chart; \<open>rate\<close> is \<^verbatim>\<open>obj?.[target]\<close> (\<open>None\<close> for \<open>undefined\<close>)
  until the filter narrows it to a number.
\<close>

record 'r point =
  date :: string
  label :: string
  rate :: 'r

text \<open>
  \<^verbatim>\<open>Array.prototype.map\<close> with a callback that may throw: the first exception ends it.
\<close>

fun map_throw :: "('a \<Rightarrow> 'e + 'b) \<Rightarrow> 'a list \<Rightarrow> 'e + 'b list" where
  "map_throw f [] = Inr []"
| "map_throw f (x # xs) =
     (case f x of
        Inl e \<Rightarrow> Inl e
      | Inr y \<Rightarrow> (case map_throw f xs of Inl e \<Rightarrow> Inl e | Inr ys \<Rightarrow> Inr (y # ys)))"

text \<open>
  The callback of the \<open>map\<close>. \<open>shortDateLabel\<close> only calls the platform
  (\<^verbatim>\<open>split\<close>, \<^verbatim>\<open>Number\<close>, \<^verbatim>\<open>Date.UTC\<close>, \<^verbatim>\<open>Intl.DateTimeFormat\<close>) and is a parameter:
  \<open>None\<close> where \<^verbatim>\<open>format\<close> throws a RangeError, which it does on a date key that
  is not a date.
\<close>

definition entry_point ::
  "(string \<Rightarrow> string option) \<Rightarrow> string \<Rightarrow> string \<times> (string \<times> json) list \<Rightarrow>
     js_error + (json option) point" where
  "entry_point shortDateLabel tgt e =
     (case shortDateLabel (fst e) of
        None \<Rightarrow> Inl RangeError
      | Some l \<Rightarrow> Inr \<lparr>date = fst e, label = l, rate = map_of (snd e) tgt\<rparr>)"

text \<open>\<^verbatim>\<open>filter((p) => typeof p.rate === "number")\<close>, narrowing the rate to a number.\<close>

definition number_point :: "(json option) point \<Rightarrow> jsnum point option" where
  "number_point p =
     (case rate p of
        Some (JNum n) \<Rightarrow> Some \<lparr>date = date p, label = label p, rate = n\<rparr>
      | _ \<Rightarrow> None)"

text \<open>
  \<^verbatim>\<open>Array.prototype.sort\<close> with a comparator is stable and, for a consistent
  comparator, sorts by it: such a sort has one result, which insertion from the right
  computes.
\<close>

fun insort_cmp :: "('a \<Rightarrow> 'a \<Rightarrow> int) \<Rightarrow> 'a \<Rightarrow> 'a list \<Rightarrow> 'a list" where
  "insort_cmp c x [] = [x]"
| "insort_cmp c x (y # ys) = (if c x y \<le> 0 then x # y # ys else y # insort_cmp c x ys)"

definition Array_sort :: "('a \<Rightarrow> 'a \<Rightarrow> int) \<Rightarrow> 'a list \<Rightarrow> 'a list" where
  "Array_sort c xs = foldr (insort_cmp c) xs []"

text \<open>\<^verbatim>\<open>Array.prototype.slice(start)\<close>: a negative \<open>start\<close> counts from the end.\<close>

definition Array_slice :: "int \<Rightarrow> 'a list \<Rightarrow> 'a list" where
  "Array_slice start xs =
     (let len = int (length xs);
          k = (if start < 0 then max (len + start) 0 else min start len)
      in drop (nat k) xs)"

text \<open>
  The points that pass the filter, in the order of \<^verbatim>\<open>Object.entries(rates)\<close>, which
  is the list \<open>raw\<close>: each entry is a date key with the object of the rates of that
  date, as the type of the response says; the rates themselves may be any value.
\<close>

definition survivors ::
  "(string \<Rightarrow> string option) \<Rightarrow> (string \<times> (string \<times> json) list) list \<Rightarrow> string \<Rightarrow>
     js_error + jsnum point list" where
  "survivors shortDateLabel raw tgt =
     (case map_throw (entry_point shortDateLabel tgt) raw of
        Inl e \<Rightarrow> Inl e
      | Inr ps \<Rightarrow> Inr (List.map_filter number_point ps))"

text \<open>\<open>localeCompare\<close> is the platform's \<^verbatim>\<open>String.prototype.localeCompare\<close>.\<close>

definition chartData ::
  "(string \<Rightarrow> string \<Rightarrow> int) \<Rightarrow> (string \<Rightarrow> string option) \<Rightarrow>
     (string \<times> (string \<times> json) list) list \<Rightarrow> string \<Rightarrow> Period \<Rightarrow> js_error + jsnum point list" where
  "chartData localeCompare shortDateLabel raw tgt period =
     (case survivors shortDateLabel raw tgt of
        Inl e \<Rightarrow> Inl e
      | Inr ps \<Rightarrow>
          (let points = Array_sort (\<lambda>a b. localeCompare (date a) (date b)) ps
           in Inr (Array_slice (- period_days period) points)))"








section \<open>The specification's reading of the rules\<close>

text \<open>
  The definitions of this section follow the words of the specification, not the code;
  the theorems compare them with the code.

  An entry survives when it is an object whose \<open>base\<close> and \<open>target\<close> are strings and
  whose uppercased codes are non-empty and differ; it survives as the uppercased pair.
\<close>

definition spec_entry :: "(string \<Rightarrow> string) \<Rightarrow> json \<Rightarrow> WatchPair option" where
  "spec_entry up x =
     (case x of
        JObj fs \<Rightarrow>
          (case (map_of fs ''base'', map_of fs ''target'') of
             (Some (JStr b), Some (JStr t)) \<Rightarrow>
               if up b = [] \<or> up t = [] \<or> up b = up t then None
               else Some \<lparr>base = up b, target = up t\<rparr>
           | _ \<Rightarrow> None)
      | _ \<Rightarrow> None)"

definition spec_survivors :: "(string \<Rightarrow> string) \<Rightarrow> json list \<Rightarrow> WatchPair list" where
  "spec_survivors up parsed = List.map_filter (spec_entry up) parsed"

text \<open>The keys of a list in the order in which each is first seen.\<close>

primrec first_seen :: "'a list \<Rightarrow> 'a list" where
  "first_seen [] = []"
| "first_seen (x # xs) = x # filter (\<lambda>y. y \<noteq> x) (first_seen xs)"

text \<open>
  The uniqueness key of the specification: the base, a hyphen and the target. It is
  written here from the specification's words; \<open>pair_key\<close> above is the key the loop of
  \<open>loadWatchlist\<close> computes.
\<close>

definition spec_key :: "WatchPair \<Rightarrow> string" where
  "spec_key p = base p @ [CHR ''-''] @ target p"

text \<open>The last entry of a list that has a given key.\<close>

definition last_with_key :: "WatchPair list \<Rightarrow> string \<Rightarrow> WatchPair" where
  "last_with_key ps k = last (filter (\<lambda>p. spec_key p = k) ps)"

text \<open>
  Deduplication as the specification words it: one entry per key, at the position where
  the key is first seen, holding the last occurrence of the key.
\<close>

definition spec_dedup :: "WatchPair list \<Rightarrow> WatchPair list" where
  "spec_dedup ps = map (last_with_key ps) (first_seen (map spec_key ps))"

text \<open>The entries the loop of \<open>loadWatchlist\<close> skips.\<close>

definition droppable :: "WatchPair \<Rightarrow> bool" where
  "droppable p \<longleftrightarrow> base p = [] \<or> target p = [] \<or> base p = target p"

text \<open>
  The other deduplication of the specification's open question: the loop of
  \<open>loadWatchlist\<close> with a key that is present left alone, so that the first occurrence
  of a key stays.
\<close>

fun keep_first_loop :: "(string \<times> WatchPair) list \<Rightarrow> WatchPair list \<Rightarrow> (string \<times> WatchPair) list" where
  "keep_first_loop uniq [] = uniq"
| "keep_first_loop uniq (p # ps) =
     (if base p = [] \<or> target p = [] \<or> base p = target p then keep_first_loop uniq ps
      else if pair_key p \<in> fst ` set uniq then keep_first_loop uniq ps
      else keep_first_loop (Map_set uniq (pair_key p) p) ps)"

definition keep_first_list :: "(string \<Rightarrow> string) \<Rightarrow> json list \<Rightarrow> WatchPair list" where
  "keep_first_list toUpperCase parsed =
     Map_values (keep_first_loop [] (upper_pairs toUpperCase parsed))"

text \<open>
  The calendar as the specification needs it, written without the code: the leap years,
  the lengths of the years and of the months, the dates that exist, and the number of the
  day \<open>(y, m, d)\<close> counted from 1970-01-01, which is the days of the years from 1970
  up to \<open>y\<close> (or back to \<open>y\<close>, taken negative), the days of the months of \<open>y\<close>
  before \<open>m\<close>, and \<open>d - 1\<close>.
\<close>

definition leap_year :: "int \<Rightarrow> bool" where
  "leap_year y \<longleftrightarrow> y mod 4 = 0 \<and> (y mod 100 \<noteq> 0 \<or> y mod 400 = 0)"

definition year_length :: "int \<Rightarrow> int" where
  "year_length y = (if leap_year y then 366 else 365)"

definition month_length :: "int \<Rightarrow> int \<Rightarrow> int" where
  "month_length y m =
     (if m = 2 then (if leap_year y then 29 else 28)
      else if m = 4 \<or> m = 6 \<or> m = 9 \<or> m = 11 then 30 else 31)"

definition valid_date :: "int \<Rightarrow> int \<Rightarrow> int \<Rightarrow> bool" where
  "valid_date y m d \<longleftrightarrow> 1 \<le> m \<and> m \<le> 12 \<and> 1 \<le> d \<and> d \<le> month_length y m"

definition days_before_year :: "int \<Rightarrow> int" where
  "days_before_year y =
     (if 1970 \<le> y then sum_list (map year_length [1970..y - 1])
      else - sum_list (map year_length [y..1969]))"

definition day_number :: "int \<Rightarrow> int \<Rightarrow> int \<Rightarrow> int" where
  "day_number y m d =
     days_before_year y + sum_list (map (month_length y) [1..m - 1]) + (d - 1)"

text \<open>
  The form \<open>YYYY-MM-DD\<close> of a date: the four decimal digits of the year, the two of
  the month and the two of the day, with hyphens between. \<open>is_iso_date\<close> is the shape
  alone: ten characters, digits but for the two hyphens.
\<close>

definition two_digits :: "int \<Rightarrow> string" where
  "two_digits n = [digit_char (nat (n div 10 mod 10)), digit_char (nat (n mod 10))]"

definition four_digits :: "int \<Rightarrow> string" where
  "four_digits n = two_digits (n div 100) @ two_digits n"

definition date_string :: "int \<Rightarrow> int \<Rightarrow> int \<Rightarrow> string" where
  "date_string y m d = four_digits y @ ''-'' @ two_digits m @ ''-'' @ two_digits d"

definition is_digit :: "char \<Rightarrow> bool" where
  "is_digit c \<longleftrightarrow> c \<in> set ''0123456789''"

definition is_iso_date :: "string \<Rightarrow> bool" where
  "is_iso_date s \<longleftrightarrow>
     length s = 10 \<and> list_all is_digit (take 4 s) \<and> s ! 4 = CHR ''-'' \<and>
     list_all is_digit (take 2 (drop 5 s)) \<and> s ! 7 = CHR ''-'' \<and> list_all is_digit (drop 8 s)"

text \<open>
  What the filter of the series tests, \<^verbatim>\<open>typeof rate === "number"\<close>, and what the
  specification says it tests: a number that is finite.
\<close>

definition typeof_number :: "json option \<Rightarrow> bool" where
  "typeof_number v = (case v of Some (JNum n) \<Rightarrow> True | _ \<Rightarrow> False)"

definition finite_number :: "json option \<Rightarrow> bool" where
  "finite_number v = (case v of Some (JNum (Finite r)) \<Rightarrow> True | _ \<Rightarrow> False)"







text \<open>
  The invariant of a watchlist: every code is non-empty and uppercase (\<open>toUpperCase\<close>
  leaves it as it is), the two codes of an entry differ, and no key occurs twice.
\<close>

definition valid_pair :: "(string \<Rightarrow> string) \<Rightarrow> WatchPair \<Rightarrow> bool" where
  "valid_pair up p \<longleftrightarrow>
     base p \<noteq> [] \<and> target p \<noteq> [] \<and> up (base p) = base p \<and> up (target p) = target p \<and>
     base p \<noteq> target p"

definition watchlist_inv :: "(string \<Rightarrow> string) \<Rightarrow> WatchPair list \<Rightarrow> bool" where
  "watchlist_inv up ps \<longleftrightarrow> list_all (valid_pair up) ps \<and> distinct (map pair_key ps)"

section \<open>A platform for the examples\<close>

text \<open>
  The examples run the code on a concrete platform: \<open>toUpperCase\<close> on ASCII strings,
  \<^verbatim>\<open>JSON.stringify\<close> and \<^verbatim>\<open>JSON.parse\<close> on the texts the examples store, the
  lexicographic order of the characters for \<open>localeCompare\<close> (the two agree on dates
  written \<open>YYYY-MM-DD\<close>), and the labels of the dates the examples use.
\<close>

definition ascii_upper_char :: "char \<Rightarrow> char" where
  "ascii_upper_char c =
     (case map_of (zip ''abcdefghijklmnopqrstuvwxyz'' ''ABCDEFGHIJKLMNOPQRSTUVWXYZ'') c of
        Some u \<Rightarrow> u
      | None \<Rightarrow> c)"

definition ascii_upper :: "string \<Rightarrow> string" where
  "ascii_upper s = map ascii_upper_char s"

definition demo_array :: "json list" where
  "demo_array =
     [JObj [(''base'', JStr ''usd''), (''target'', JStr ''mxn'')],
      JNull,
      JObj [(''base'', JNum (Finite 123)), (''target'', JStr ''GBP'')],
      JObj [(''base'', JStr ''eur''), (''target'', JStr ''usd'')],
      JObj [(''base'', JStr ''usd''), (''target'', JStr ''eur'')],
      JObj [(''base'', JStr ''USD''), (''target'', JStr ''MXN'')],
      JObj [(''base'', JStr ''gbp''), (''target'', JStr ''GBP'')],
      JObj [(''target'', JStr ''CHF'')],
      JStr ''USD-MXN'']"

definition demo_text :: string where
  \<open>demo_text = ''[{"base":"usd","target":"mxn"},null,{"base":123,"target":"GBP"},{"base":"eur","target":"usd"},{"base":"usd","target":"eur"},{"base":"USD","target":"MXN"},{"base":"gbp","target":"GBP"},{"target":"CHF"},"USD-MXN"]''\<close>

definition eur_usd_array :: "json list" where
  "eur_usd_array = [JObj [(''base'', JStr ''EUR''), (''target'', JStr ''USD'')]]"

definition eur_usd_text :: string where
  \<open>eur_usd_text = ''[{"base":"EUR","target":"USD"}]''\<close>

definition self_pair_array :: "json list" where
  "self_pair_array = [JObj [(''base'', JStr ''USD''), (''target'', JStr ''USD'')]]"

definition self_pair_text :: string where
  \<open>self_pair_text = ''[{"base":"USD","target":"USD"}]''\<close>

text \<open>Two entries with one key, \<open>A-B-C\<close>.\<close>

definition collide_array :: "json list" where
  "collide_array =
     [JObj [(''base'', JStr ''A-B''), (''target'', JStr ''C'')],
      JObj [(''base'', JStr ''A''), (''target'', JStr ''B-C'')]]"


definition demo_parse :: "string \<Rightarrow> json option" where
  "demo_parse s =
     (if s = ''[]'' then Some (JArr [])
      else if s = eur_usd_text then Some (JArr eur_usd_array)
      else if s = demo_text then Some (JArr demo_array)
      else if s = self_pair_text then Some (JArr self_pair_array)
      else if s = ''null'' then Some JNull
      else None)"

text \<open>A store that holds \<open>v\<close> under the key, and one that cannot be reached.\<close>

definition demo_storage :: "string option \<Rightarrow> storage" where
  "demo_storage v = \<lparr>entries = (\<lambda>k. if k = KEY then v else None), readable = True, writable = True\<rparr>"

definition blocked_storage :: storage where
  "blocked_storage = \<lparr>entries = (\<lambda>k. None), readable = False, writable = False\<rparr>"

definition code_unit_compare :: "string \<Rightarrow> string \<Rightarrow> int" where
  "code_unit_compare a b = (if a < b then - 1 else if a = b then 0 else 1)"

definition demo_label :: "string \<Rightarrow> string option" where
  "demo_label d =
     map_of [(''2024-01-01'', ''Jan 01''), (''2024-01-02'', ''Jan 02''), (''2024-01-03'', ''Jan 03''),
             (''2024-01-04'', ''Jan 04''), (''2024-01-05'', ''Jan 05''), (''2024-01-06'', ''Jan 06''),
             (''2024-01-07'', ''Jan 07''), (''2024-01-08'', ''Jan 08''), (''2024-01-09'', ''Jan 09''),
             (''2024-01-10'', ''Jan 10'')] d"

text \<open>A state of the watchlist page.\<close>

definition demo_state :: watchlist_state where
  "demo_state =
     \<lparr>pairs = [\<lparr>base = ''EUR'', target = ''USD''\<rparr>, \<lparr>base = ''USD'', target = ''MXN''\<rparr>],
      base_sel = ''gbp'', target_sel = ''jpy'', msg = Some ''old''\<rparr>"

text \<open>
  Ten days of rates for the series, in the order of the response; the first of them has
  no rate for the target, and the third holds a string.
\<close>

definition demo_rates :: "(string \<times> (string \<times> json) list) list" where
  "demo_rates =
     [(''2024-01-01'', [(''EUR'', JNum (Finite 1))]),
      (''2024-01-03'', [(''MXN'', JStr ''17'')]),
      (''2024-01-02'', [(''MXN'', JNum (Finite 17))]),
      (''2024-01-05'', [(''MXN'', JNum (Finite 19))]),
      (''2024-01-04'', [(''MXN'', JNum (Finite 18))]),
      (''2024-01-06'', [(''MXN'', JNum (Finite 16))]),
      (''2024-01-07'', [(''MXN'', JNum (Finite 17))]),
      (''2024-01-08'', [(''MXN'', JNum (Finite 20))]),
      (''2024-01-09'', [(''MXN'', JNum (Finite 18))]),
      (''2024-01-10'', [(''MXN'', JNum (Finite 18))])]"





text \<open>The first millisecond of the year 10000.\<close>

definition year_10000 :: int where
  "year_10000 = 253402300800000"

section \<open>The deduplication of loadWatchlist\<close>

lemma pair_key_spec: "pair_key = spec_key"
  by (rule ext) (simp add: pair_key_def spec_key_def)

lemma set_first_seen: "set (first_seen xs) = set xs"
  by (induction xs) auto

lemma distinct_first_seen: "distinct (first_seen xs)"
  by (induction xs) (auto simp: set_first_seen)

lemma first_seen_snoc:
  "first_seen (xs @ [x]) = (if x \<in> set xs then first_seen xs else first_seen xs @ [x])"
  by (induction xs) auto


lemma uniq_loop_snoc:
  "uniq_loop m (ps @ [p]) =
     (if droppable p then uniq_loop m ps else Map_set (uniq_loop m ps) (pair_key p) p)"
  by (induction ps arbitrary: m) (auto simp: droppable_def)

lemma Map_set_present:
  "k \<in> set ks \<Longrightarrow> distinct ks \<Longrightarrow>
   Map_set (map (\<lambda>k'. (k', f k')) ks) k v = map (\<lambda>k'. (k', if k' = k then v else f k')) ks"
  by (induction ks) auto

lemma Map_set_absent:
  "k \<notin> set ks \<Longrightarrow> Map_set (map (\<lambda>k'. (k', f k')) ks) k v = map (\<lambda>k'. (k', f k')) ks @ [(k, v)]"
  by (induction ks) auto

lemma last_with_key_snoc:
  "last_with_key (ps @ [p]) k = (if spec_key p = k then p else last_with_key ps k)"
  by (simp add: last_with_key_def)

text \<open>
  The map that the loop builds from the empty map: its keys are the keys of the entries
  the loop keeps, each where it is first seen, and each key holds the last entry with it.
\<close>

lemma uniq_loop_keyed:
  "uniq_loop [] ps =
     map (\<lambda>k. (k, last_with_key (filter (\<lambda>p. \<not> droppable p) ps) k))
       (first_seen (map spec_key (filter (\<lambda>p. \<not> droppable p) ps)))"
proof (induction ps rule: rev_induct)
  case Nil
  show ?case by simp
next
  case (snoc p ps)
  let ?vs = "filter (\<lambda>p. \<not> droppable p) ps"
  show ?case
  proof (cases "droppable p")
    case True
    with snoc show ?thesis by (simp add: uniq_loop_snoc)
  next
    case False
    show ?thesis
    proof (cases "spec_key p \<in> set (map spec_key ?vs)")
      case True
      then have "spec_key p \<in> set (first_seen (map spec_key ?vs))"
        by (simp add: set_first_seen)
      with False True snoc show ?thesis
        by (simp add: pair_key_spec uniq_loop_snoc first_seen_snoc Map_set_present distinct_first_seen
            last_with_key_snoc eq_commute cong: if_cong)
    next
      case notin: False
      then have "spec_key p \<notin> set (first_seen (map spec_key ?vs))"
        by (simp add: set_first_seen)
      with False notin snoc show ?thesis
        by (simp add: pair_key_spec uniq_loop_snoc first_seen_snoc Map_set_absent last_with_key_snoc)
    qed
  qed
qed

lemma spec_survivors_eq:
  "spec_survivors up xs = filter (\<lambda>p. \<not> droppable p) (upper_pairs up xs)"
proof (induction xs)
  case Nil
  show ?case by (simp add: spec_survivors_def upper_pairs_def List.map_filter_simps)
next
  case (Cons x xs)
  then show ?case
    by (cases x)
      (auto simp: spec_survivors_def upper_pairs_def List.map_filter_simps spec_entry_def
        droppable_def split: option.splits json.splits)
qed

lemma uniq_list_spec: "uniq_list up xs = spec_dedup (spec_survivors up xs)"
  by (simp add: uniq_list_def Map_values_def uniq_loop_keyed spec_dedup_def spec_survivors_eq o_def)

lemma spec_dedup_keys: "map spec_key (spec_dedup ps) = first_seen (map spec_key ps)"
proof -
  have "spec_key (last_with_key ps k) = k" if "k \<in> set (map spec_key ps)" for k
  proof -
    from that have ne: "filter (\<lambda>p. spec_key p = k) ps \<noteq> []"
      by (auto simp: filter_empty_conv)
    from last_in_set [OF ne] show ?thesis
      by (simp add: last_with_key_def)
  qed
  then have "map (\<lambda>k. spec_key (last_with_key ps k)) (first_seen (map spec_key ps)) =
      map (\<lambda>k. k) (first_seen (map spec_key ps))"
    by (intro map_cong refl) (simp add: set_first_seen)
  then show ?thesis by (simp add: spec_dedup_def o_def)
qed

lemma spec_dedup_values:
  "p \<in> set (spec_dedup ps) \<Longrightarrow> p = last_with_key ps (spec_key p)"
proof -
  assume "p \<in> set (spec_dedup ps)"
  then obtain k where k: "k \<in> set (map spec_key ps)" and p: "p = last_with_key ps k"
    by (auto simp: spec_dedup_def set_first_seen)
  from k have ne: "filter (\<lambda>p. spec_key p = k) ps \<noteq> []"
    by (auto simp: filter_empty_conv)
  from last_in_set [OF ne] p have "spec_key p = k"
    by (simp add: last_with_key_def)
  with p show ?thesis by simp
qed

lemma last_with_key_in:
  "k \<in> spec_key ` set ps \<Longrightarrow> last_with_key ps k \<in> set ps"
proof -
  assume "k \<in> spec_key ` set ps"
  then have ne: "filter (\<lambda>p. spec_key p = k) ps \<noteq> []"
    by (auto simp: filter_empty_conv)
  from last_in_set [OF ne] show ?thesis
    by (simp add: last_with_key_def)
qed

lemma set_spec_dedup: "set (spec_dedup ps) \<subseteq> set ps"
  by (auto simp: spec_dedup_def set_first_seen intro: last_with_key_in)

lemma loadWatchlist_array:
  "getItem st KEY = Inr (Some raw) \<Longrightarrow> raw \<noteq> [] \<Longrightarrow> JSON_parse raw = Some (JArr parsed) \<Longrightarrow>
   loadWatchlist up JSON_parse st =
     (if uniq_list up parsed = [] then default_watchlist else uniq_list up parsed)"
  by (simp add: loadWatchlist_def loadWatchlist_try_def Let_def)

lemma ascii_upper_simps:
  "ascii_upper [] = []" "ascii_upper (c # s) = ascii_upper_char c # ascii_upper s"
  by (simp_all add: ascii_upper_def)

lemma ascii_upper_char_idem: "ascii_upper_char (ascii_upper_char c) = ascii_upper_char c"
proof -
  have "c \<in> set ''abcdefghijklmnopqrstuvwxyz'' \<or> c \<notin> set ''abcdefghijklmnopqrstuvwxyz''"
    by blast
  then show ?thesis
    by (elim disjE) (auto simp: ascii_upper_char_def)
qed

lemma ascii_upper_idem: "ascii_upper (ascii_upper s) = ascii_upper s"
  by (simp add: ascii_upper_def ascii_upper_char_idem)

lemma demo_survivors:
  "spec_survivors ascii_upper demo_array =
     [\<lparr>base = ''USD'', target = ''MXN''\<rparr>, \<lparr>base = ''EUR'', target = ''USD''\<rparr>,
      \<lparr>base = ''USD'', target = ''EUR''\<rparr>, \<lparr>base = ''USD'', target = ''MXN''\<rparr>]"
  by (simp add: spec_survivors_def demo_array_def List.map_filter_simps spec_entry_def
      ascii_upper_simps ascii_upper_char_def)

lemma demo_dedup:
  "spec_dedup (spec_survivors ascii_upper demo_array) =
     [\<lparr>base = ''USD'', target = ''MXN''\<rparr>, \<lparr>base = ''EUR'', target = ''USD''\<rparr>,
      \<lparr>base = ''USD'', target = ''EUR''\<rparr>]"
  by (simp add: demo_survivors spec_dedup_def last_with_key_def spec_key_def)

text \<open>
  Claim C1. For every parsed storage array, the list that \<open>loadWatchlist\<close> builds
  (\<open>uniq_list\<close>) is the specification's deduplication of the specification's
  survivors: the survivors are the entries that are objects with a string \<open>base\<close> and a
  string \<open>target\<close>, uppercased, without those whose uppercased base or target is empty or
  whose two codes are equal; the key of an entry is its base, a hyphen and its target
  (\<open>spec_key\<close>, which the key of the code equals); the keys of the result are the
  survivors' keys in first-seen order; and every entry of the result is the last survivor
  with its key. Where the stored text parses to the array, \<open>loadWatchlist\<close> returns this
  list, or the default when it is empty.
\<close>

theorem load_normalizes:
  "uniq_list up parsed = spec_dedup (spec_survivors up parsed) \<and>
   map spec_key (uniq_list up parsed) = first_seen (map spec_key (spec_survivors up parsed)) \<and>
   (\<forall>p \<in> set (uniq_list up parsed).
      p = last (filter (\<lambda>q. base q @ ''-'' @ target q = base p @ ''-'' @ target p)
                 (spec_survivors up parsed))) \<and>
   (getItem st KEY = Inr (Some raw) \<and> raw \<noteq> [] \<and> JSON_parse raw = Some (JArr parsed) \<longrightarrow>
      loadWatchlist up JSON_parse st =
        (if spec_dedup (spec_survivors up parsed) = [] then default_watchlist
         else spec_dedup (spec_survivors up parsed)))"
proof (intro conjI)
  show "uniq_list up parsed = spec_dedup (spec_survivors up parsed)"
    by (rule uniq_list_spec)
  show "map spec_key (uniq_list up parsed) = first_seen (map spec_key (spec_survivors up parsed))"
    by (simp only: uniq_list_spec spec_dedup_keys)
  show "\<forall>p \<in> set (uniq_list up parsed).
      p = last (filter (\<lambda>q. base q @ ''-'' @ target q = base p @ ''-'' @ target p)
                 (spec_survivors up parsed))"
    using spec_dedup_values [of _ "spec_survivors up parsed"]
    by (simp add: uniq_list_spec last_with_key_def spec_key_def)
  show "getItem st KEY = Inr (Some raw) \<and> raw \<noteq> [] \<and> JSON_parse raw = Some (JArr parsed) \<longrightarrow>
      loadWatchlist up JSON_parse st =
        (if spec_dedup (spec_survivors up parsed) = [] then default_watchlist
         else spec_dedup (spec_survivors up parsed))"
    by (simp add: loadWatchlist_array uniq_list_spec)
qed

text \<open>
  The stored example: nine entries, of which four survive, two of them with the key
  \<open>USD-MXN\<close> and a third with the same base and another target.
\<close>

theorem load_normalizes_witness:
  "getItem (demo_storage (Some demo_text)) KEY = Inr (Some demo_text) \<and> demo_text \<noteq> [] \<and>
   demo_parse demo_text = Some (JArr demo_array) \<and>
   loadWatchlist ascii_upper demo_parse (demo_storage (Some demo_text)) =
     [\<lparr>base = ''USD'', target = ''MXN''\<rparr>, \<lparr>base = ''EUR'', target = ''USD''\<rparr>,
      \<lparr>base = ''USD'', target = ''EUR''\<rparr>]"
proof -
  have 1: "getItem (demo_storage (Some demo_text)) KEY = Inr (Some demo_text)"
    by (simp add: getItem_def demo_storage_def)
  have 2: "demo_text \<noteq> []"
    by (simp add: demo_text_def)
  have 3: "demo_parse demo_text = Some (JArr demo_array)"
    by (simp add: demo_parse_def demo_text_def eur_usd_text_def)
  from load_normalizes [of ascii_upper demo_array "demo_storage (Some demo_text)" demo_text demo_parse]
    1 2 3
  have "loadWatchlist ascii_upper demo_parse (demo_storage (Some demo_text)) =
     (if spec_dedup (spec_survivors ascii_upper demo_array) = [] then default_watchlist
      else spec_dedup (spec_survivors ascii_upper demo_array))"
    by blast
  with 1 2 3 show ?thesis
    by (simp add: demo_dedup)
qed

section \<open>loadWatchlist never fails and never returns the empty list\<close>

lemma loadWatchlist_nonempty: "loadWatchlist up JSON_parse st \<noteq> []"
  by (auto simp: loadWatchlist_def loadWatchlist_try_def default_watchlist_def Let_def
      split: sum.splits option.splits json.splits if_splits)

text \<open>
  Claim C2. For every state of the store, every \<open>toUpperCase\<close> and every \<open>JSON.parse\<close>,
  \<open>loadWatchlist\<close> returns a list that is not empty (as a function of the model it returns
  a list in every case: no exception leaves it), and it returns the default watchlist when
  reading the store throws, when the blob is absent or is the empty string, when the blob
  does not parse, when it parses to a value that is not an array, and when no valid pair
  is left.
\<close>

theorem load_total_default:
  "loadWatchlist up JSON_parse st \<noteq> [] \<and>
   (getItem st KEY = Inl e \<longrightarrow> loadWatchlist up JSON_parse st = default_watchlist) \<and>
   (getItem st KEY = Inr None \<longrightarrow> loadWatchlist up JSON_parse st = default_watchlist) \<and>
   (getItem st KEY = Inr (Some []) \<longrightarrow> loadWatchlist up JSON_parse st = default_watchlist) \<and>
   (getItem st KEY = Inr (Some raw) \<and> JSON_parse raw = None \<longrightarrow>
      loadWatchlist up JSON_parse st = default_watchlist) \<and>
   (getItem st KEY = Inr (Some raw) \<and> JSON_parse raw = Some v \<and> (\<forall>xs. v \<noteq> JArr xs) \<longrightarrow>
      loadWatchlist up JSON_parse st = default_watchlist) \<and>
   (getItem st KEY = Inr (Some raw) \<and> JSON_parse raw = Some (JArr parsed) \<and>
    spec_dedup (spec_survivors up parsed) = [] \<longrightarrow>
      loadWatchlist up JSON_parse st = default_watchlist)"
proof (intro conjI impI)
  show "loadWatchlist up JSON_parse st \<noteq> []"
    by (rule loadWatchlist_nonempty)
next
  assume "getItem st KEY = Inl e"
  then show "loadWatchlist up JSON_parse st = default_watchlist"
    by (simp add: loadWatchlist_def loadWatchlist_try_def)
next
  assume "getItem st KEY = Inr None"
  then show "loadWatchlist up JSON_parse st = default_watchlist"
    by (simp add: loadWatchlist_def loadWatchlist_try_def)
next
  assume "getItem st KEY = Inr (Some [])"
  then show "loadWatchlist up JSON_parse st = default_watchlist"
    by (simp add: loadWatchlist_def loadWatchlist_try_def)
next
  assume "getItem st KEY = Inr (Some raw) \<and> JSON_parse raw = None"
  then show "loadWatchlist up JSON_parse st = default_watchlist"
    by (simp add: loadWatchlist_def loadWatchlist_try_def)
next
  assume "getItem st KEY = Inr (Some raw) \<and> JSON_parse raw = Some v \<and> (\<forall>xs. v \<noteq> JArr xs)"
  then show "loadWatchlist up JSON_parse st = default_watchlist"
    by (cases v) (simp_all add: loadWatchlist_def loadWatchlist_try_def)
next
  assume "getItem st KEY = Inr (Some raw) \<and> JSON_parse raw = Some (JArr parsed) \<and>
    spec_dedup (spec_survivors up parsed) = []"
  then show "loadWatchlist up JSON_parse st = default_watchlist"
    by (simp add: loadWatchlist_def loadWatchlist_try_def uniq_list_spec)
qed

text \<open>
  One store for each case: a store that cannot be read, an empty store, the empty string,
  a text that does not parse, the text \<open>null\<close>, and an array that holds only the pair
  of \<open>USD\<close> with itself.
\<close>

theorem load_total_default_witness:
  "loadWatchlist ascii_upper demo_parse blocked_storage = [\<lparr>base = ''USD'', target = ''MXN''\<rparr>] \<and>
   loadWatchlist ascii_upper demo_parse (demo_storage None) = [\<lparr>base = ''USD'', target = ''MXN''\<rparr>] \<and>
   loadWatchlist ascii_upper demo_parse (demo_storage (Some [])) = [\<lparr>base = ''USD'', target = ''MXN''\<rparr>] \<and>
   loadWatchlist ascii_upper demo_parse (demo_storage (Some ''{oops'')) =
     [\<lparr>base = ''USD'', target = ''MXN''\<rparr>] \<and>
   loadWatchlist ascii_upper demo_parse (demo_storage (Some ''null'')) =
     [\<lparr>base = ''USD'', target = ''MXN''\<rparr>] \<and>
   loadWatchlist ascii_upper demo_parse (demo_storage (Some self_pair_text)) =
     [\<lparr>base = ''USD'', target = ''MXN''\<rparr>]"
proof (intro conjI)
  have "getItem blocked_storage KEY = Inl SecurityError"
    by (simp add: getItem_def blocked_storage_def)
  with load_total_default [of ascii_upper demo_parse blocked_storage SecurityError]
  show "loadWatchlist ascii_upper demo_parse blocked_storage = [\<lparr>base = ''USD'', target = ''MXN''\<rparr>]"
    by (simp add: default_watchlist_def)
next
  have "getItem (demo_storage None) KEY = Inr None"
    by (simp add: getItem_def demo_storage_def)
  with load_total_default [of ascii_upper demo_parse "demo_storage None"]
  show "loadWatchlist ascii_upper demo_parse (demo_storage None) = [\<lparr>base = ''USD'', target = ''MXN''\<rparr>]"
    by (simp add: default_watchlist_def)
next
  have "getItem (demo_storage (Some [])) KEY = Inr (Some [])"
    by (simp add: getItem_def demo_storage_def)
  with load_total_default [of ascii_upper demo_parse "demo_storage (Some [])"]
  show "loadWatchlist ascii_upper demo_parse (demo_storage (Some [])) = [\<lparr>base = ''USD'', target = ''MXN''\<rparr>]"
    by (simp add: default_watchlist_def)
next
  have "getItem (demo_storage (Some ''{oops'')) KEY = Inr (Some ''{oops'') \<and>
      demo_parse ''{oops'' = None"
    by (simp add: getItem_def demo_storage_def demo_parse_def eur_usd_text_def demo_text_def
        self_pair_text_def)
  with load_total_default [of ascii_upper demo_parse "demo_storage (Some ''{oops'')" _ "''{oops''"]
  show "loadWatchlist ascii_upper demo_parse (demo_storage (Some ''{oops'')) =
     [\<lparr>base = ''USD'', target = ''MXN''\<rparr>]"
    by (simp add: default_watchlist_def)
next
  have "getItem (demo_storage (Some ''null'')) KEY = Inr (Some ''null'') \<and>
      demo_parse ''null'' = Some JNull \<and> (\<forall>xs. JNull \<noteq> JArr xs)"
    by (simp add: getItem_def demo_storage_def demo_parse_def eur_usd_text_def demo_text_def
        self_pair_text_def)
  with load_total_default [of ascii_upper demo_parse "demo_storage (Some ''null'')" _ "''null''" JNull]
  show "loadWatchlist ascii_upper demo_parse (demo_storage (Some ''null'')) =
     [\<lparr>base = ''USD'', target = ''MXN''\<rparr>]"
    by (simp add: default_watchlist_def)
next
  have "getItem (demo_storage (Some self_pair_text)) KEY = Inr (Some self_pair_text) \<and>
      demo_parse self_pair_text = Some (JArr self_pair_array) \<and>
      spec_dedup (spec_survivors ascii_upper self_pair_array) = []"
    by (simp add: getItem_def demo_storage_def demo_parse_def eur_usd_text_def demo_text_def
        self_pair_text_def self_pair_array_def spec_dedup_def spec_survivors_def spec_entry_def
        List.map_filter_simps ascii_upper_simps ascii_upper_char_def)
  with load_total_default [of ascii_upper demo_parse "demo_storage (Some self_pair_text)" _
      self_pair_text _ self_pair_array]
  show "loadWatchlist ascii_upper demo_parse (demo_storage (Some self_pair_text)) =
     [\<lparr>base = ''USD'', target = ''MXN''\<rparr>]"
    by (simp add: default_watchlist_def)
qed

section \<open>The two deduplications\<close>

text \<open>
  Claim C10 says that overwriting a key's value and keeping its first value give the same
  list for every input array, since the key determines the value. It does not: the key
  joins the two codes with a hyphen, and a code may hold a hyphen. The pairs
  \<open>(A-B, C)\<close> and \<open>(A, B-C)\<close> share the key \<open>A-B-C\<close>; the code keeps the second, and
  keeping the first occurrence keeps the first.
\<close>

theorem dedup_variants_differ:
  "uniq_list ascii_upper collide_array = [\<lparr>base = ''A'', target = ''B-C''\<rparr>] \<and>
   keep_first_list ascii_upper collide_array = [\<lparr>base = ''A-B'', target = ''C''\<rparr>] \<and>
   uniq_list ascii_upper collide_array \<noteq> keep_first_list ascii_upper collide_array"
  by (simp add: uniq_list_def keep_first_list_def collide_array_def upper_pairs_def
      List.map_filter_simps Map_values_def pair_key_def ascii_upper_simps ascii_upper_char_def)

lemma Map_set_same:
  "\<forall>e \<in> set m. fst e = k \<longrightarrow> snd e = v \<Longrightarrow> k \<in> fst ` set m \<Longrightarrow> Map_set m k v = m"
proof (induction m)
  case Nil
  then show ?case by simp
next
  case (Cons e m)
  show ?case
  proof (cases "fst e = k")
    case True
    with Cons.prems(1) show ?thesis by (cases e) auto
  next
    case False
    with Cons.prems(2) have "k \<in> fst ` set m" by auto
    with Cons.IH Cons.prems(1) False show ?thesis by (cases e) auto
  qed
qed

lemma set_Map_set: "set (Map_set m k v) \<subseteq> insert (k, v) (set m)"
  by (induction m) (auto split: if_splits)

lemma keep_first_loop_eq:
  "inj_on pair_key (snd ` set m \<union> {p \<in> set ps. \<not> droppable p}) \<Longrightarrow>
   \<forall>e \<in> set m. fst e = pair_key (snd e) \<Longrightarrow>
   keep_first_loop m ps = uniq_loop m ps"
proof (induction ps arbitrary: m)
  case Nil
  show ?case by simp
next
  case (Cons p ps)
  show ?case
  proof (cases "droppable p")
    case True
    have "inj_on pair_key (snd ` set m \<union> {p \<in> set ps. \<not> droppable p})"
      by (rule inj_on_subset [OF Cons.prems(1)]) auto
    with True Cons.IH [of m] Cons.prems(2) show ?thesis
      by (simp add: droppable_def)
  next
    case False
    show ?thesis
    proof (cases "pair_key p \<in> fst ` set m")
      case True
      have same: "\<forall>e \<in> set m. fst e = pair_key p \<longrightarrow> snd e = p"
      proof (intro ballI impI)
        fix e assume e: "e \<in> set m" and k: "fst e = pair_key p"
        from e Cons.prems(2) have "pair_key (snd e) = pair_key p"
          using k by auto
        moreover from e have "snd e \<in> snd ` set m \<union> {q \<in> set (p # ps). \<not> droppable q}"
          by auto
        moreover from False have "p \<in> snd ` set m \<union> {q \<in> set (p # ps). \<not> droppable q}"
          by auto
        ultimately show "snd e = p"
          using Cons.prems(1) by (meson inj_onD)
      qed
      have inj: "inj_on pair_key (snd ` set m \<union> {p \<in> set ps. \<not> droppable p})"
        by (rule inj_on_subset [OF Cons.prems(1)]) auto
      from False True Map_set_same [OF same True] Cons.IH [OF inj Cons.prems(2)]
      show ?thesis by (simp add: droppable_def)
    next
      case notin: False
      let ?m = "Map_set m (pair_key p) p"
      have sub: "set ?m \<subseteq> insert (pair_key p, p) (set m)"
        by (rule set_Map_set)
      have inj: "inj_on pair_key (snd ` set ?m \<union> {p \<in> set ps. \<not> droppable p})"
        by (rule inj_on_subset [OF Cons.prems(1)]) (use sub False in force)
      have keyed: "\<forall>e \<in> set ?m. fst e = pair_key (snd e)"
        using sub Cons.prems(2) by auto
      from False notin Cons.IH [OF inj keyed] show ?thesis
        by (simp add: droppable_def)
    qed
  qed
qed

lemma hyphen_free_key_inj:
  assumes "\<forall>p \<in> A. CHR ''-'' \<notin> set (base p)"
  shows "inj_on pair_key A"
proof (rule inj_onI)
  fix p q :: WatchPair
  assume p: "p \<in> A" and q: "q \<in> A" and k: "pair_key p = pair_key q"
  have *: "a = b \<and> x = y" if "a @ CHR ''-'' # x = b @ CHR ''-'' # y"
    "CHR ''-'' \<notin> set a" "CHR ''-'' \<notin> set b" for a b x y :: string
    using that
  proof (induction a arbitrary: b)
    case Nil
    then show ?case by (cases b) auto
  next
    case (Cons c a)
    then show ?case by (cases b) auto
  qed
  from k have "base p @ CHR ''-'' # target p = base q @ CHR ''-'' # target q"
    by (simp add: pair_key_def)
  from * [OF this] assms p q have "base p = base q \<and> target p = target q"
    by blast
  then show "p = q" by simp
qed

text \<open>
  Claim C10, amended. For every input array whose surviving pairs are determined by their
  keys (equal keys only on equal pairs, as when no base code holds a hyphen), the
  deduplication of the code, where a later duplicate overwrites the stored value, and the
  deduplication that keeps the first occurrence of each key return the same list.
\<close>

theorem dedup_variants_agree:
  "inj_on pair_key (set (spec_survivors up parsed)) \<Longrightarrow>
   uniq_list up parsed = keep_first_list up parsed"
proof -
  assume "inj_on pair_key (set (spec_survivors up parsed))"
  then have "inj_on pair_key (snd ` set [] \<union> {p \<in> set (upper_pairs up parsed). \<not> droppable p})"
    by (simp add: spec_survivors_eq)
  from keep_first_loop_eq [OF this] show ?thesis
    by (simp add: uniq_list_def keep_first_list_def)
qed

theorem dedup_variants_agree_witness:
  "inj_on pair_key (set (spec_survivors ascii_upper demo_array)) \<and>
   uniq_list ascii_upper demo_array = keep_first_list ascii_upper demo_array"
proof -
  have "inj_on pair_key (set (spec_survivors ascii_upper demo_array))"
    by (rule hyphen_free_key_inj) (simp add: demo_survivors)
  with dedup_variants_agree [of ascii_upper demo_array] show ?thesis
    by simp
qed

section \<open>Adding and removing a pair\<close>

lemma onAdd_result:
  "onAdd up s =
     (let b = up (base_sel s); t = up (target_sel s); new = \<lparr>base = b, target = t\<rparr>
      in if b = [] \<or> t = [] then s\<lparr>msg := Some EmptyField\<rparr>
         else if b = t then s\<lparr>msg := Some SamePair\<rparr>
         else if pair_key new \<in> pair_key ` set (pairs s) then s\<lparr>msg := Some DuplicatePair\<rparr>
         else s\<lparr>msg := None, pairs := new # pairs s\<rparr>)"
proof -
  have "list_ex (\<lambda>p. base p @ ''-'' @ target p = k) ps \<longleftrightarrow> k \<in> pair_key ` set ps" for k ps
    by (auto simp: list_ex_iff pair_key_def)
  then show ?thesis
    by (simp add: onAdd_def Let_def pair_key_def)
qed

text \<open>
  Claim C4. For every state of the page, \<open>onAdd\<close> uppercases the two selected codes; it
  sets the message \<open>EmptyField\<close> if one of them is empty, else \<open>SamePair\<close> if the two
  are equal, else \<open>DuplicatePair\<close> if the key of the new pair is the key of an entry of
  the watchlist, each time leaving the watchlist as it is; otherwise it clears the message
  and puts the new pair in front of the watchlist, whose entries stay as they are and in
  their order.
\<close>

theorem add_cases:
  "onAdd up s =
     (let b = up (base_sel s); t = up (target_sel s); new = \<lparr>base = b, target = t\<rparr>
      in if b = [] \<or> t = [] then s\<lparr>msg := Some EmptyField\<rparr>
         else if b = t then s\<lparr>msg := Some SamePair\<rparr>
         else if pair_key new \<in> pair_key ` set (pairs s) then s\<lparr>msg := Some DuplicatePair\<rparr>
         else s\<lparr>msg := None, pairs := new # pairs s\<rparr>)"
  by (rule onAdd_result)

lemma distinct_keys_distinct: "distinct (map pair_key ps) \<Longrightarrow> distinct ps"
  by (rule distinct_map [THEN iffD1, THEN conjunct1])

lemma length_filter_neq:
  "distinct xs \<Longrightarrow> p \<in> set xs \<Longrightarrow> Suc (length (filter (\<lambda>x. x \<noteq> p) xs)) = length xs"
proof (induction xs)
  case Nil
  then show ?case by simp
next
  case (Cons x xs)
  show ?case
  proof (cases "x = p")
    case True
    with Cons.prems have "filter (\<lambda>x. x \<noteq> p) xs = xs"
      by (auto intro: filter_True)
    with True show ?thesis by simp
  next
    case False
    with Cons show ?thesis by simp
  qed
qed

text \<open>
  Claim C8. For every watchlist and pair, \<open>onRemove\<close> returns the state with every entry
  equal to the pair (in both fields) removed and nothing else changed; the state is
  unchanged if no entry matches; and if the pair is in the watchlist and the keys of the
  watchlist are distinct, the watchlist gets shorter by exactly one. As a function of the
  model it returns in every case.
\<close>

theorem remove_filters:
  "onRemove s p = s\<lparr>pairs := filter (\<lambda>x. x \<noteq> p) (pairs s)\<rparr> \<and>
   (p \<notin> set (pairs s) \<longrightarrow> onRemove s p = s) \<and>
   (p \<in> set (pairs s) \<and> distinct (map pair_key (pairs s)) \<longrightarrow>
      Suc (length (pairs (onRemove s p))) = length (pairs s))"
proof -
  have eq: "(\<lambda>x. \<not> (base x = base p \<and> target x = target p)) = (\<lambda>x. x \<noteq> p)"
    by (rule ext) auto
  have 1: "onRemove s p = s\<lparr>pairs := filter (\<lambda>x. x \<noteq> p) (pairs s)\<rparr>"
    by (simp only: onRemove_def eq)
  have 2: "onRemove s p = s" if "p \<notin> set (pairs s)"
  proof -
    from that have "filter (\<lambda>x. x \<noteq> p) (pairs s) = pairs s"
      by (auto simp: filter_id_conv)
    with 1 show ?thesis by simp
  qed
  have 3: "Suc (length (pairs (onRemove s p))) = length (pairs s)"
    if "p \<in> set (pairs s)" "distinct (map pair_key (pairs s))"
    using that 1 by (simp add: length_filter_neq distinct_keys_distinct)
  from 1 2 3 show ?thesis by blast
qed

theorem remove_filters_witness:
  "\<lparr>base = ''USD'', target = ''JPY''\<rparr> \<notin> set (pairs demo_state) \<and>
   onRemove demo_state \<lparr>base = ''USD'', target = ''JPY''\<rparr> = demo_state \<and>
   \<lparr>base = ''EUR'', target = ''USD''\<rparr> \<in> set (pairs demo_state) \<and>
   distinct (map pair_key (pairs demo_state)) \<and>
   Suc (length (pairs (onRemove demo_state \<lparr>base = ''EUR'', target = ''USD''\<rparr>))) =
     length (pairs demo_state) \<and>
   pairs (onRemove demo_state \<lparr>base = ''EUR'', target = ''USD''\<rparr>) =
     [\<lparr>base = ''USD'', target = ''MXN''\<rparr>]"
proof -
  have 1: "\<lparr>base = ''USD'', target = ''JPY''\<rparr> \<notin> set (pairs demo_state)"
    by (simp add: demo_state_def)
  have 2: "\<lparr>base = ''EUR'', target = ''USD''\<rparr> \<in> set (pairs demo_state)"
    by (simp add: demo_state_def)
  have 3: "distinct (map pair_key (pairs demo_state))"
    by (simp add: demo_state_def pair_key_def)
  have 4: "pairs (onRemove demo_state \<lparr>base = ''EUR'', target = ''USD''\<rparr>) =
     [\<lparr>base = ''USD'', target = ''MXN''\<rparr>]"
    using remove_filters [of demo_state "\<lparr>base = ''EUR'', target = ''USD''\<rparr>"]
    by (simp add: demo_state_def)
  from remove_filters [of demo_state "\<lparr>base = ''USD'', target = ''JPY''\<rparr>"]
    remove_filters [of demo_state "\<lparr>base = ''EUR'', target = ''USD''\<rparr>"] 1 2 3 4
  show ?thesis by blast
qed

section \<open>The invariant of the watchlist\<close>

lemma valid_default:
  "up ''USD'' = ''USD'' \<Longrightarrow> up ''MXN'' = ''MXN'' \<Longrightarrow> watchlist_inv up default_watchlist"
  by (simp add: watchlist_inv_def default_watchlist_def valid_pair_def)

lemma spec_entry_valid:
  "\<forall>s. up (up s) = up s \<Longrightarrow> spec_entry up x = Some p \<Longrightarrow> valid_pair up p"
  by (auto simp: spec_entry_def valid_pair_def split: json.splits option.splits if_splits)

lemma spec_survivors_valid:
  "\<forall>s. up (up s) = up s \<Longrightarrow> p \<in> set (spec_survivors up xs) \<Longrightarrow> valid_pair up p"
  by (auto simp: spec_survivors_def map_filter_def dest: spec_entry_valid)

lemma uniq_list_inv:
  assumes "\<forall>s. up (up s) = up s"
  shows "watchlist_inv up (uniq_list up parsed)"
proof -
  have "valid_pair up p" if "p \<in> set (uniq_list up parsed)" for p
    using that set_spec_dedup [of "spec_survivors up parsed"] spec_survivors_valid [OF assms]
    by (auto simp: uniq_list_spec)
  moreover have "distinct (map pair_key (uniq_list up parsed))"
    by (simp add: pair_key_spec uniq_list_spec spec_dedup_keys distinct_first_seen)
  ultimately show ?thesis
    by (simp add: watchlist_inv_def list_all_iff)
qed

lemma loadWatchlist_cases:
  "loadWatchlist up JSON_parse st = default_watchlist \<or>
   (\<exists>parsed. loadWatchlist up JSON_parse st = uniq_list up parsed)"
  by (auto simp: loadWatchlist_def loadWatchlist_try_def Let_def
      split: sum.splits option.splits json.splits if_splits)

lemma onAdd_inv:
  assumes "\<forall>s. up (up s) = up s" "watchlist_inv up (pairs s)"
  shows "watchlist_inv up (pairs (onAdd up s))"
  using assms
  by (auto simp: onAdd_result Let_def watchlist_inv_def valid_pair_def)

lemma onRemove_inv:
  "watchlist_inv up (pairs s) \<Longrightarrow> watchlist_inv up (pairs (onRemove s p))"
  by (auto simp: onRemove_def watchlist_inv_def list_all_iff distinct_map_filter)

text \<open>
  Claim C3. On a platform whose \<open>toUpperCase\<close> leaves an uppercased string as it is, and
  the codes \<open>USD\<close> and \<open>MXN\<close> of the default pair with it, every watchlist that
  \<open>loadWatchlist\<close> returns satisfies the invariant (all codes non-empty and uppercase,
  the two codes of an entry different, no key twice), and \<open>onAdd\<close> and \<open>onRemove\<close>
  keep the invariant.
\<close>

theorem watchlist_invariant:
  assumes "\<forall>s. up (up s) = up s" "up ''USD'' = ''USD''" "up ''MXN'' = ''MXN''"
  shows "watchlist_inv up (loadWatchlist up JSON_parse st) \<and>
         (watchlist_inv up (pairs s) \<longrightarrow> watchlist_inv up (pairs (onAdd up s))) \<and>
         (watchlist_inv up (pairs s) \<longrightarrow> watchlist_inv up (pairs (onRemove s p)))"
proof (intro conjI impI)
  from loadWatchlist_cases [of up JSON_parse st]
  show "watchlist_inv up (loadWatchlist up JSON_parse st)"
    using valid_default [OF assms(2,3)] uniq_list_inv [OF assms(1)] by auto
next
  assume "watchlist_inv up (pairs s)"
  with assms(1) show "watchlist_inv up (pairs (onAdd up s))"
    by (rule onAdd_inv)
next
  assume "watchlist_inv up (pairs s)"
  then show "watchlist_inv up (pairs (onRemove s p))"
    by (rule onRemove_inv)
qed

theorem watchlist_invariant_witness:
  "(\<forall>s. ascii_upper (ascii_upper s) = ascii_upper s) \<and>
   ascii_upper ''USD'' = ''USD'' \<and> ascii_upper ''MXN'' = ''MXN'' \<and>
   watchlist_inv ascii_upper (pairs demo_state) \<and>
   watchlist_inv ascii_upper (loadWatchlist ascii_upper demo_parse (demo_storage (Some demo_text))) \<and>
   watchlist_inv ascii_upper (pairs (onAdd ascii_upper demo_state)) \<and>
   watchlist_inv ascii_upper (pairs (onRemove demo_state \<lparr>base = ''EUR'', target = ''USD''\<rparr>))"
proof -
  have 1: "\<forall>s. ascii_upper (ascii_upper s) = ascii_upper s"
    by (simp add: ascii_upper_idem)
  have 2: "ascii_upper ''USD'' = ''USD''" and 3: "ascii_upper ''MXN'' = ''MXN''"
    by (simp_all add: ascii_upper_simps ascii_upper_char_def)
  have 4: "watchlist_inv ascii_upper (pairs demo_state)"
    by (simp add: demo_state_def watchlist_inv_def valid_pair_def pair_key_def
        ascii_upper_simps ascii_upper_char_def)
  from watchlist_invariant [OF 1 2 3, of demo_parse "demo_storage (Some demo_text)" demo_state
      "\<lparr>base = ''EUR'', target = ''USD''\<rparr>"] 1 2 3 4
  show ?thesis by blast
qed

section \<open>Saving and loading\<close>










section \<open>The chart series\<close>

lemma map_throw_ok:
  "\<forall>x \<in> set xs. \<exists>y. f x = Inr y \<Longrightarrow> \<exists>ys. map_throw f xs = Inr ys \<and> map Inr ys = map f xs"
proof (induction xs)
  case Nil
  show ?case by simp
next
  case (Cons x xs)
  then obtain y ys where "f x = Inr y" "map_throw f xs = Inr ys" "map Inr ys = map f xs"
    by auto
  then show ?case by simp
qed

lemma entry_points_ok:
  assumes "\<forall>e \<in> set raw. shortDateLabel (fst e) \<noteq> None"
  shows "map_throw (entry_point shortDateLabel tgt) raw =
     Inr (map (\<lambda>e. \<lparr>date = fst e, label = the (shortDateLabel (fst e)), rate = map_of (snd e) tgt\<rparr>) raw)"
  using assms
  by (induction raw) (auto simp: entry_point_def)

lemma dates_map_filter_number_point:
  "map date (List.map_filter number_point ps) = map date (filter (\<lambda>p. typeof_number (rate p)) ps)"
  by (induction ps)
    (auto simp: List.map_filter_simps number_point_def typeof_number_def
      split: option.splits json.splits)

lemma rates_map_filter_number_point:
  "map (\<lambda>p. Some (JNum (rate p))) (List.map_filter number_point ps) =
   map rate (filter (\<lambda>p. typeof_number (rate p)) ps)"
  by (induction ps)
    (auto simp: List.map_filter_simps number_point_def typeof_number_def
      split: option.splits json.splits)

lemma survivors_ok:
  assumes "\<forall>e \<in> set raw. shortDateLabel (fst e) \<noteq> None"
  shows "\<exists>ps. survivors shortDateLabel raw tgt = Inr ps \<and>
     map date ps = map fst (filter (\<lambda>e. typeof_number (map_of (snd e) tgt)) raw) \<and>
     map (\<lambda>p. Some (JNum (rate p))) ps =
       map (\<lambda>e. map_of (snd e) tgt) (filter (\<lambda>e. typeof_number (map_of (snd e) tgt)) raw)"
  by (simp add: survivors_def entry_points_ok [OF assms] dates_map_filter_number_point
      rates_map_filter_number_point filter_map o_def)

lemma set_insort_cmp: "set (insort_cmp c x ys) = insert x (set ys)"
  by (induction ys) auto

lemma length_insort_cmp: "length (insort_cmp c x ys) = Suc (length ys)"
  by (induction ys) auto






lemma length_Array_sort: "length (Array_sort c xs) = length xs"
  by (induction xs) (simp_all add: Array_sort_def length_insort_cmp)

lemma set_Array_sort: "set (Array_sort c xs) = set xs"
  by (induction xs) (simp_all add: Array_sort_def set_insort_cmp)

lemma Array_slice_last:
  "0 < n \<Longrightarrow> Array_slice (- n) xs = drop (length xs - nat n) xs"
proof -
  assume pos: "0 < n"
  have "nat (max (int (length xs) - n) 0) = length xs - nat n"
  proof (cases "n \<le> int (length xs)")
    case True
    with pos show ?thesis by (simp add: nat_diff_distrib')
  next
    case False
    then show ?thesis by simp
  qed
  with pos show ?thesis
    by (simp add: Array_slice_def Let_def)
qed

lemma period_days_pos: "0 < period_days p"
  by (cases p) simp_all

lemma chartData_ok:
  "survivors shortDateLabel raw tgt = Inr ps \<Longrightarrow>
   chartData localeCompare shortDateLabel raw tgt period =
     Inr (drop (length ps - nat (period_days period))
           (Array_sort (\<lambda>a b. localeCompare (date a) (date b)) ps))"
  by (simp add: chartData_def Let_def Array_slice_last period_days_pos length_Array_sort)

lemma demo_labels_ok: "list_all (\<lambda>e. demo_label (fst e) \<noteq> None) demo_rates"
  by (simp add: demo_rates_def demo_label_def)


text \<open>
  Claim C5 says that a date becomes a point if and only if its value for the target is
  present and is a finite number. The filter tests the type of the value only, and an
  infinity is a number (the JSON text \<open>1e999\<close> parses to it): the date of an infinite
  rate is a point of the chart.
\<close>

theorem infinite_rate_kept:
  "\<not> finite_number (map_of [(''MXN'', JNum PosInfinity)] ''MXN'') \<and>
   chartData code_unit_compare demo_label [(''2024-01-02'', [(''MXN'', JNum PosInfinity)])] ''MXN'' P7 =
     Inr [\<lparr>date = ''2024-01-02'', label = ''Jan 02'', rate = PosInfinity\<rparr>]"
  by (simp add: finite_number_def chartData_def survivors_def entry_point_def demo_label_def
      List.map_filter_simps number_point_def Array_sort_def Array_slice_def)

text \<open>
  Claim C5, amended. For every raw mapping whose date keys \<open>shortDateLabel\<close> can format
  and every target code, the series is computed without an exception; the dates of the
  points that pass the filter are, in the order of the mapping, the dates whose value for
  the target is present and is of type number, finite or not, with that value as the rate,
  so that a date is the date of such a point if and only if the mapping holds a number for
  the target at that date; and every point of the chart is one of those points (the chart
  keeps the last \<open>period\<close> of them).
\<close>

theorem series_keeps_numbers:
  assumes "list_all (\<lambda>e. shortDateLabel (fst e) \<noteq> None) raw"
  shows "\<exists>ps cd. survivors shortDateLabel raw tgt = Inr ps \<and>
     map date ps = map fst (filter (\<lambda>e. typeof_number (map_of (snd e) tgt)) raw) \<and>
     (\<forall>d. d \<in> set (map date ps) \<longleftrightarrow>
        (\<exists>e \<in> set raw. fst e = d \<and> typeof_number (map_of (snd e) tgt))) \<and>
     map (\<lambda>p. Some (JNum (rate p))) ps =
       map (\<lambda>e. map_of (snd e) tgt) (filter (\<lambda>e. typeof_number (map_of (snd e) tgt)) raw) \<and>
     chartData localeCompare shortDateLabel raw tgt period = Inr cd \<and> set cd \<subseteq> set ps"
proof -
  from assms have "\<forall>e \<in> set raw. shortDateLabel (fst e) \<noteq> None"
    by (simp add: list_all_iff)
  from survivors_ok [OF this, of tgt] obtain ps where
    ps: "survivors shortDateLabel raw tgt = Inr ps"
      "map date ps = map fst (filter (\<lambda>e. typeof_number (map_of (snd e) tgt)) raw)"
      "map (\<lambda>p. Some (JNum (rate p))) ps =
         map (\<lambda>e. map_of (snd e) tgt) (filter (\<lambda>e. typeof_number (map_of (snd e) tgt)) raw)"
    by blast
  let ?cd = "drop (length ps - nat (period_days period))
           (Array_sort (\<lambda>a b. localeCompare (date a) (date b)) ps)"
  have "set ?cd \<subseteq> set ps"
    using set_drop_subset [of "length ps - nat (period_days period)"
        "Array_sort (\<lambda>a b. localeCompare (date a) (date b)) ps"]
    by (simp add: set_Array_sort)
  moreover have "\<forall>d. d \<in> set (map date ps) \<longleftrightarrow>
        (\<exists>e \<in> set raw. fst e = d \<and> typeof_number (map_of (snd e) tgt))"
    unfolding ps(2) by auto
  ultimately show ?thesis
    using ps chartData_ok [OF ps(1), of localeCompare period]
    by (intro exI [of _ ps] exI [of _ ?cd]) simp
qed

theorem series_keeps_numbers_witness:
  "list_all (\<lambda>e. demo_label (fst e) \<noteq> None) demo_rates \<and>
   (\<exists>ps cd. survivors demo_label demo_rates ''MXN'' = Inr ps \<and>
      map date ps =
        [''2024-01-02'', ''2024-01-05'', ''2024-01-04'', ''2024-01-06'', ''2024-01-07'',
         ''2024-01-08'', ''2024-01-09'', ''2024-01-10''] \<and>
      chartData code_unit_compare demo_label demo_rates ''MXN'' P7 = Inr cd \<and> set cd \<subseteq> set ps)"
proof -
  have dates: "map fst (filter (\<lambda>e. typeof_number (map_of (snd e) ''MXN'')) demo_rates) =
      [''2024-01-02'', ''2024-01-05'', ''2024-01-04'', ''2024-01-06'', ''2024-01-07'',
       ''2024-01-08'', ''2024-01-09'', ''2024-01-10'']"
    by (simp add: demo_rates_def typeof_number_def)
  from series_keeps_numbers [OF demo_labels_ok, of "''MXN''" code_unit_compare P7]
  obtain ps cd where a: "survivors demo_label demo_rates ''MXN'' = Inr ps"
    and b: "map date ps = map fst (filter (\<lambda>e. typeof_number (map_of (snd e) ''MXN'')) demo_rates)"
    and c: "chartData code_unit_compare demo_label demo_rates ''MXN'' P7 = Inr cd"
    and d: "set cd \<subseteq> set ps"
    by blast
  from b dates have "map date ps =
      [''2024-01-02'', ''2024-01-05'', ''2024-01-04'', ''2024-01-06'', ''2024-01-07'',
       ''2024-01-08'', ''2024-01-09'', ''2024-01-10'']"
    by (rule trans)
  with a c d have "\<exists>ps cd. survivors demo_label demo_rates ''MXN'' = Inr ps \<and>
      map date ps =
        [''2024-01-02'', ''2024-01-05'', ''2024-01-04'', ''2024-01-06'', ''2024-01-07'',
         ''2024-01-08'', ''2024-01-09'', ''2024-01-10''] \<and>
      chartData code_unit_compare demo_label demo_rates ''MXN'' P7 = Inr cd \<and> set cd \<subseteq> set ps"
    by (intro exI [of _ ps] exI [of _ cd] conjI)
  with demo_labels_ok show ?thesis
    by (rule conjI)
qed

section \<open>Double arithmetic\<close>

text \<open>
  The list that \<open>ulp_exponent\<close> counts is a prefix of the exponents, since the powers
  of two grow: the count is the one \<open>j\<close> whose two powers enclose the magnitude.
\<close>

lemma filter_prefix:
  assumes anti: "\<And>k k'. k \<le> k' \<Longrightarrow> P k' \<Longrightarrow> P k"
  shows "filter P [m..<n] = [m..<m + length (filter P [m..<n])]"
proof (induction n)
  case 0
  show ?case by simp
next
  case (Suc n)
  show ?case
  proof (cases "m \<le> n")
    case False
    then show ?thesis by simp
  next
    case mn: True
    show ?thesis
    proof (cases "P n")
      case True
      have "filter P [m..<n] = [m..<n]"
        by (rule filter_True) (use anti [OF _ True] in auto)
      with True mn show ?thesis by simp
    next
      case False
      with mn Suc show ?thesis by simp
    qed
  qed
qed

lemma filter_prefix_len:
  assumes anti: "\<And>k k'. k \<le> k' \<Longrightarrow> P k' \<Longrightarrow> P k"
  shows "length (filter P [m..<n]) \<le> n - m"
    and "\<forall>i. m \<le> i \<and> i < m + length (filter P [m..<n]) \<longrightarrow> P i"
    and "\<forall>i. m + length (filter P [m..<n]) \<le> i \<and> i < n \<longrightarrow> \<not> P i"
proof -
  let ?l = "length (filter P [m..<n])"
  have eq: "filter P [m..<n] = [m..<m + ?l]"
    by (rule filter_prefix [OF anti])
  show 1: "?l \<le> n - m"
    using length_filter_le [of P "[m..<n]"] by simp
  have "P i" if "m \<le> i" "i < m + ?l" for i
  proof -
    from that have "i \<in> set [m..<m + ?l]" by simp
    with eq have "i \<in> set (filter P [m..<n])" by simp
    then show ?thesis by simp
  qed
  then show "\<forall>i. m \<le> i \<and> i < m + ?l \<longrightarrow> P i"
    by blast
  have "\<not> P i" if "m + ?l \<le> i" "i < n" for i
  proof
    assume "P i"
    with that have "i \<in> set (filter P [m..<n])" by simp
    with eq have "i \<in> set [m..<m + ?l]" by simp
    with that show False by simp
  qed
  then show "\<forall>i. m + ?l \<le> i \<and> i < n \<longrightarrow> \<not> P i"
    by blast
qed

lemma ulp_exponent_bounds:
  "ulp_exponent a \<le> 2045"
  "0 < ulp_exponent a \<Longrightarrow> 2 ^ (52 + ulp_exponent a) \<le> a"
  "ulp_exponent a < 2045 \<Longrightarrow> a < 2 ^ (53 + ulp_exponent a)"
proof -
  let ?P = "\<lambda>k::nat. (2::real) ^ k \<le> a"
  have anti: "?P k" if "k \<le> k'" "?P k'" for k k'
  proof -
    from that(1) have "(2::real) ^ k \<le> 2 ^ k'"
      by (simp add: power_increasing)
    with that(2) show ?thesis by linarith
  qed
  have f1: "ulp_exponent a \<le> 2098 - 53"
    unfolding ulp_exponent_def by (rule filter_prefix_len(1)) (rule anti)
  have f2: "\<forall>i. 53 \<le> i \<and> i < 53 + ulp_exponent a \<longrightarrow> ?P i"
    unfolding ulp_exponent_def by (rule filter_prefix_len(2)) (rule anti)
  have f3: "\<forall>i. 53 + ulp_exponent a \<le> i \<and> i < 2098 \<longrightarrow> \<not> ?P i"
    unfolding ulp_exponent_def by (rule filter_prefix_len(3)) (rule anti)
  show "ulp_exponent a \<le> 2045"
    using f1 by simp
  show "2 ^ (52 + ulp_exponent a) \<le> a" if "0 < ulp_exponent a"
    using f2 [rule_format, of "52 + ulp_exponent a"] that by simp
  show "a < 2 ^ (53 + ulp_exponent a)" if "ulp_exponent a < 2045"
    using f3 [rule_format, of "53 + ulp_exponent a"] that by (simp add: not_le)
qed

lemma ulp_exponent_eq:
  assumes "j \<le> 2045" and lo: "0 < j \<Longrightarrow> 2 ^ (52 + j) \<le> a" and hi: "j < 2045 \<Longrightarrow> a < 2 ^ (53 + j)"
  shows "ulp_exponent a = j"
proof (rule ccontr)
  assume ne: "ulp_exponent a \<noteq> j"
  let ?u = "ulp_exponent a"
  show False
  proof (cases "?u < j")
    case True
    with assms(1) have "?u < 2045" by simp
    from ulp_exponent_bounds(3) [OF this] have 1: "a < 2 ^ (53 + ?u)" .
    from True have "(2::real) ^ (53 + ?u) \<le> 2 ^ (52 + j)"
      by (intro power_increasing) simp_all
    with 1 lo True show False by simp
  next
    case False
    with ne have gt: "j < ?u" by simp
    with ulp_exponent_bounds(1) [of a] have "j < 2045" by simp
    from hi [OF this] have 1: "a < 2 ^ (53 + j)" .
    from gt have 2: "(2::real) ^ (53 + j) \<le> 2 ^ (52 + ?u)"
      by (intro power_increasing) simp_all
    from gt have "0 < ?u" by simp
    from ulp_exponent_bounds(2) [OF this] 1 2 show False by simp
  qed
qed

lemma round_half_even_int: "round_half_even (of_int m) = m"
  by (simp add: round_half_even_def)


text \<open>
  A multiple of its own unit of rounding below \<open>2 ^ 1024\<close> is a double and is left as it
  is; a real from \<open>2 ^ 1024\<close> on rounds to infinity; every integer up to \<open>2 ^ 53\<close> is
  a double.
\<close>

lemma Number_value_exact:
  assumes j: "j \<le> 2045" and lo: "0 < j \<Longrightarrow> 2 ^ (52 + j) \<le> \<bar>x\<bar> * 2 ^ 1074"
    and hi: "j < 2045 \<Longrightarrow> \<bar>x\<bar> * 2 ^ 1074 < 2 ^ (53 + j)"
    and m: "\<bar>x\<bar> * 2 ^ 1074 / 2 ^ j = of_int m" and fin: "\<bar>x\<bar> < 2 ^ 1024"
  shows "Number_value x = Finite x"
proof -
  let ?a = "\<bar>x\<bar> * 2 ^ 1074"
  have u: "ulp_exponent ?a = j"
    by (rule ulp_exponent_eq [OF j lo hi])
  have r: "round_half_even (?a / 2 ^ j) = m"
    by (simp only: m round_half_even_int)
  from m have bk: "real_of_int (m * 2 ^ j) = ?a"
    by (simp add: field_simps)
  from fin have "?a < 2 ^ 1024 * 2 ^ 1074"
    by (intro mult_strict_right_mono) simp_all
  also have "\<dots> = (2::real) ^ 2098"
    by (simp only: power_add [symmetric]) simp
  finally have "real_of_int (m * 2 ^ j) < real_of_int (2 ^ 2098)"
    using bk by simp
  then have small: "\<not> 2 ^ 2098 \<le> m * 2 ^ j"
    by (simp only: of_int_less_iff not_le)
  have "sgn x * (real_of_int (m * 2 ^ j) / 2 ^ 1074) = sgn x * \<bar>x\<bar>"
    by (simp only: bk) simp
  also have "\<dots> = x"
    by (simp add: sgn_real_def)
  finally show ?thesis
    using small by (simp only: Number_value_def Let_def u r if_False)
qed


lemma Number_value_int:
  assumes "\<bar>i\<bar> \<le> 2 ^ 53"
  shows "Number_value (of_int i) = Finite (of_int i)"
proof -
  let ?x = "real_of_int i"
  define a where "a = \<bar>?x\<bar> * 2 ^ 1074"
  define j where "j = ulp_exponent a"
  note b = ulp_exponent_bounds [of a, folded j_def]
  from assms have ai: "\<bar>?x\<bar> \<le> 2 ^ 53"
    by (metis of_int_abs of_int_le_iff of_int_numeral of_int_power)
  then have "a \<le> 2 ^ 53 * 2 ^ 1074"
    unfolding a_def by (intro mult_right_mono) simp_all
  also have "\<dots> = (2::real) ^ 1127"
    by (simp only: power_add [symmetric]) simp
  finally have upper: "a \<le> 2 ^ 1127" .
  have j: "j \<le> 1075"
  proof (cases "0 < j")
    case True
    from b(2) [OF True] upper have "(2::real) ^ (52 + j) \<le> 2 ^ 1127"
      by linarith
    then have "52 + j \<le> 1127"
      by (rule power_le_imp_le_exp [rotated]) simp
    then show ?thesis by simp
  next
    case False
    then show ?thesis by simp
  qed
  have "\<exists>m. a / 2 ^ j = real_of_int m"
  proof (cases "j = 1075")
    case True
    then have "0 < j" by simp
    from b(2) [OF this] True have "(2::real) ^ 1127 \<le> a"
      by simp
    with upper have "a = 2 ^ 1127" by linarith
    with True have "a / 2 ^ j = 2 ^ 1127 / 2 ^ 1075"
      by (simp only:)
    also have "\<dots> = (2::real) ^ (1127 - 1075)"
      by (rule power_diff [symmetric]) simp_all
    also have "\<dots> = real_of_int (2 ^ 52)"
      by simp
    finally show ?thesis by blast
  next
    case False
    with j have le: "j \<le> 1074" by simp
    have "a / 2 ^ j = \<bar>?x\<bar> * (2 ^ 1074 / 2 ^ j)"
      by (simp add: a_def)
    also have "(2::real) ^ 1074 / 2 ^ j = 2 ^ (1074 - j)"
      by (rule power_diff [symmetric]) (use le in simp_all)
    also have "\<bar>?x\<bar> * 2 ^ (1074 - j) = real_of_int (\<bar>i\<bar> * 2 ^ (1074 - j))"
      by simp
    finally show ?thesis by blast
  qed
  then obtain m where m: "a / 2 ^ j = real_of_int m" ..
  have "(2::real) ^ 53 < 2 ^ 1024"
    by (intro power_strict_increasing) simp_all
  with ai have fin: "\<bar>?x\<bar> < 2 ^ 1024" by linarith
  show ?thesis
    by (rule Number_value_exact [of j ?x m])
      (use b m fin in \<open>simp_all only: a_def [symmetric]\<close>)
qed


lemma Number_value_0: "Number_value 0 = Finite 0"
  using Number_value_int [of 0] by simp








section \<open>The statistics of the series\<close>































section \<open>The date window\<close>

text \<open>
  The calendar of the model against its description: the year of a day is the one year
  whose first day is not after it and whose successor's first day is.
\<close>

lemma div_succ:
  fixes a k :: int
  assumes "0 < k"
  shows "(a + 1) div k = a div k + (if (a + 1) mod k = 0 then 1 else 0)"
proof -
  have split: "a + 1 = k * (a div k) + (a mod k + 1)"
    using mult_div_mod_eq [of k a] by linarith
  from assms have r: "0 \<le> a mod k" "a mod k < k"
    by simp_all
  show ?thesis
  proof (cases "a mod k + 1 = k")
    case True
    have "k * (a div k + 1) + 0 = k * (a div k) + k"
      by (simp add: algebra_simps)
    with split True have eq: "a + 1 = k * (a div k + 1) + 0"
      by linarith
    from assms have "(a + 1) div k = a div k + 1"
      by (intro int_div_pos_eq [OF eq]) simp_all
    moreover from assms have "(a + 1) mod k = 0"
      by (intro int_mod_pos_eq [OF eq]) simp_all
    ultimately show ?thesis by simp
  next
    case False
    with r have lt: "a mod k + 1 < k" by simp
    from r lt have "(a + 1) div k = a div k"
      by (intro int_div_pos_eq [OF split]) simp_all
    moreover from r lt have "(a + 1) mod k = a mod k + 1"
      by (intro int_mod_pos_eq [OF split]) simp_all
    ultimately show ?thesis using r by simp
  qed
qed

lemma mod_shift_mult:
  fixes y k c :: int
  shows "(y - k * c) mod k = y mod k"
proof -
  have "(y - k * c) mod k = (y + k * (- c)) mod k"
    by simp
  also have "\<dots> = y mod k"
    by (rule mod_mult_self2)
  finally show ?thesis .
qed

lemma mod_coarser:
  fixes y a b :: int
  assumes "a dvd b" "y mod b = 0"
  shows "y mod a = 0"
proof -
  from assms(2) have "b dvd y" by (simp add: mod_eq_0_iff_dvd)
  with assms(1) have "a dvd y" by (rule dvd_trans)
  then show ?thesis by (simp add: mod_eq_0_iff_dvd)
qed

lemma DayFromYear_Suc: "DayFromYear (y + 1) = DayFromYear y + DaysInYear y"
proof -
  have s4: "(y - 1968) mod 4 = y mod 4"
    using mod_shift_mult [of y 4 492] by simp
  have s100: "(y - 1900) mod 100 = y mod 100"
    using mod_shift_mult [of y 100 19] by simp
  have s400: "(y - 1600) mod 400 = y mod 400"
    using mod_shift_mult [of y 400 4] by simp
  have 4: "(y + 1 - 1969) div 4 = (y - 1969) div 4 + (if y mod 4 = 0 then 1 else 0)"
    using div_succ [of 4 "y - 1969"] s4 by simp
  have 100: "(y + 1 - 1901) div 100 = (y - 1901) div 100 + (if y mod 100 = 0 then 1 else 0)"
    using div_succ [of 100 "y - 1901"] s100 by simp
  have 400: "(y + 1 - 1601) div 400 = (y - 1601) div 400 + (if y mod 400 = 0 then 1 else 0)"
    using div_succ [of 400 "y - 1601"] s400 by simp
  have m1: "y mod 100 = 0" if "y mod 400 = 0"
    by (rule mod_coarser [OF _ that]) simp
  have m2: "y mod 4 = 0" if "y mod 100 = 0"
    by (rule mod_coarser [OF _ that]) simp
  show ?thesis
    unfolding DayFromYear_def DaysInYear_def 4 100 400
    using m1 m2 by auto
qed

lemma DaysInYear_ge: "365 \<le> DaysInYear y" "DaysInYear y \<le> 366"
  by (simp_all add: DaysInYear_def)

lemma DayFromYear_mono_step: "DayFromYear y + 365 \<le> DayFromYear (y + 1)"
  using DaysInYear_ge(1) [of y] by (simp add: DayFromYear_Suc)

lemma DayFromYear_mono_nat: "DayFromYear y + 365 * int n \<le> DayFromYear (y + int n)"
proof (induction n)
  case 0
  show ?case by simp
next
  case (Suc n)
  from DayFromYear_mono_step [of "y + int n"] Suc show ?case
    by (simp add: algebra_simps)
qed

lemma DayFromYear_mono: "y \<le> y' \<Longrightarrow> DayFromYear y + 365 * (y' - y) \<le> DayFromYear y'"
  using DayFromYear_mono_nat [of y "nat (y' - y)"] by simp

lemma DayFromYear_less: "DayFromYear y < DayFromYear y' \<Longrightarrow> y < y'"
  using DayFromYear_mono [of y' y] by (cases "y < y'") auto

lemma div_floor_bounds:
  fixes a k :: int
  assumes "0 < k"
  shows "k * (a div k) \<le> a" "a < k * (a div k) + k"
  using assms pos_mod_bound [of k a] pos_mod_sign [of k a] mult_div_mod_eq [of k a]
  by linarith+

lemma DayFromYear_upper: "400 * DayFromYear (1969 + q) \<le> 146097 * q - 400"
proof -
  define f4 f100 f400 where "f4 = q div 4" and "f100 = (68 + q) div 100"
    and "f400 = (368 + q) div 400"
  have a: "4 * f4 \<le> q"
    unfolding f4_def by (rule div_floor_bounds) simp
  have b: "68 + q < 100 * f100 + 100"
    unfolding f100_def by (rule div_floor_bounds) simp
  have c: "400 * f400 \<le> 368 + q"
    unfolding f400_def by (rule div_floor_bounds) simp
  have "400 * DayFromYear (1969 + q) =
      146000 * q - 146000 + 400 * f4 - 400 * f100 + 400 * f400"
    by (simp add: DayFromYear_def f4_def f100_def f400_def)
  with a b c show ?thesis by linarith
qed

lemma DayFromYear_lower: "146097 * q + 146097 \<le> 400 * DayFromYear (1972 + q)"
proof -
  define f4 f100 f400 where "f4 = (3 + q) div 4" and "f100 = (71 + q) div 100"
    and "f400 = (371 + q) div 400"
  have a: "3 + q < 4 * f4 + 4"
    unfolding f4_def by (rule div_floor_bounds) simp
  have b: "100 * f100 \<le> 71 + q"
    unfolding f100_def by (rule div_floor_bounds) simp
  have c: "371 + q < 400 * f400 + 400"
    unfolding f400_def by (rule div_floor_bounds) simp
  have "400 * DayFromYear (1972 + q) =
      146000 * q + 292000 + 400 * f4 - 400 * f100 + 400 * f400"
    by (simp add: DayFromYear_def f4_def f100_def f400_def)
  with a b c show ?thesis by linarith
qed

lemma YearFromTime_bounds:
  "DayFromYear (YearFromTime t) \<le> Day t \<and> Day t < DayFromYear (YearFromTime t + 1)"
proof -
  define d where "d = Day t"
  define q where "q = (400 * d) div 146097"
  have q1: "146097 * q \<le> 400 * d"
    unfolding q_def by (rule div_floor_bounds) simp
  have q2: "400 * d < 146097 * q + 146097"
    unfolding q_def by (rule div_floor_bounds) simp
  have lo: "DayFromYear (1970 + q - 1) \<le> d"
    using DayFromYear_upper [of q] q1 by (simp add: algebra_simps)
  have hi: "d < DayFromYear (1970 + q + 1 + 1)"
    using DayFromYear_lower [of q] q2 by (simp add: algebra_simps)
  have y: "YearFromTime t =
      (if DayFromYear (1970 + q + 1) \<le> d then 1970 + q + 1
       else if DayFromYear (1970 + q) \<le> d then 1970 + q else 1970 + q - 1)"
    by (simp add: YearFromTime_def Let_def d_def q_def)
  show ?thesis
    unfolding y d_def [symmetric] using lo hi by auto
qed

lemma DaysInYear_leap: "DaysInYear (YearFromTime t) = 365 + InLeapYear t"
  by (simp add: InLeapYear_def DaysInYear_def)

lemma InLeapYear_range: "InLeapYear t = 0 \<or> InLeapYear t = 1"
  by (simp add: InLeapYear_def)

lemma DayWithinYear_range: "0 \<le> DayWithinYear t" "DayWithinYear t < 365 + InLeapYear t"
  using YearFromTime_bounds [of t] DayFromYear_Suc [of "YearFromTime t"]
  by (simp_all add: DayWithinYear_def DaysInYear_leap)

lemma MonthFromTime_range: "0 \<le> MonthFromTime t" "MonthFromTime t \<le> 11"
  by (simp_all add: MonthFromTime_def Let_def)

lemma month_start_date:
  "month_start (MonthFromTime t) (InLeapYear t) + DateFromTime t - 1 = DayWithinYear t"
  by (simp add: month_start_def DateFromTime_def MonthFromTime_def Let_def)

lemma month_start_le: "month_start (MonthFromTime t) (InLeapYear t) \<le> DayWithinYear t"
  using DayWithinYear_range(1) [of t] InLeapYear_range [of t]
  by (auto simp: month_start_def MonthFromTime_def Let_def)

lemma month_end_gt:
  "DayWithinYear t < month_start (MonthFromTime t) (InLeapYear t) + 31"
  using DayWithinYear_range [of t] InLeapYear_range [of t]
  by (auto simp: month_start_def MonthFromTime_def Let_def)

lemma DateFromTime_range: "1 \<le> DateFromTime t" "DateFromTime t \<le> 31"
  using month_start_date [of t] month_start_le [of t] month_end_gt [of t]
  by linarith+

lemma MakeDay_current:
  "MakeDay (YearFromTime t) (MonthFromTime t) dt = Day t - DateFromTime t + dt"
proof -
  from MonthFromTime_range [of t] have "MonthFromTime t div 12 = 0" "MonthFromTime t mod 12 = MonthFromTime t"
    by simp_all
  then have "MakeDay (YearFromTime t) (MonthFromTime t) dt =
      DayFromYear (YearFromTime t) + month_start (MonthFromTime t) (InLeapYear t) + dt - 1"
    by (simp add: MakeDay_def InLeapYear_def)
  with month_start_date [of t] show ?thesis
    by (simp add: DayWithinYear_def)
qed

lemma time_split: "Day t * msPerDay + TimeWithinDay t = t"
  by (simp add: Day_def TimeWithinDay_def)

lemma setUTCDate_shift: "setUTCDate t dt = TimeClip (t + (dt - DateFromTime t) * msPerDay)"
proof -
  have "MakeDate (Day t - DateFromTime t + dt) (TimeWithinDay t) =
      Day t * msPerDay + TimeWithinDay t + (dt - DateFromTime t) * msPerDay"
    by (simp add: MakeDate_def algebra_simps)
  then show ?thesis
    by (simp add: setUTCDate_def MakeDay_current time_split)
qed

lemma daysAgoUTC_shift: "daysAgoUTC now k = TimeClip (now - k * msPerDay)"
  by (simp add: daysAgoUTC_def setUTCDate_shift)

lemma Day_shift: "Day (t + k * msPerDay) = Day t + k"
  by (simp add: Day_def msPerDay_def)

lemma Day_times: "Day (n * msPerDay) = n"
  by (simp add: Day_def msPerDay_def)

lemma digit_char_code: "n < 10 \<Longrightarrow> of_char (digit_char n) = 48 + n"
  by (auto simp: eval_nat_numeral less_Suc_eq digit_char_def)

lemma digit_char_less: "a < 10 \<Longrightarrow> b < 10 \<Longrightarrow> digit_char a < digit_char b \<longleftrightarrow> a < b"
proof -
  assume "a < 10" "b < 10"
  then have "of_char (digit_char a) = 48 + a" "of_char (digit_char b) = 48 + b"
    by (simp_all only: digit_char_code)
  then show ?thesis
    unfolding less_char_def by simp
qed

lemma digit_char_eq: "a < 10 \<Longrightarrow> b < 10 \<Longrightarrow> digit_char a = digit_char b \<longleftrightarrow> a = b"
proof -
  assume "a < 10" "b < 10"
  then have "of_char (digit_char a) = 48 + a" "of_char (digit_char b) = 48 + b"
    by (simp_all only: digit_char_code)
  then show ?thesis
    by (metis add_left_cancel)
qed

lemma lex_append_iff:
  fixes a b :: string
  shows "length a = length b \<Longrightarrow> a @ x < b @ y \<longleftrightarrow> a < b \<or> (a = b \<and> x < y)"
  by (induction a b rule: list_induct2) auto

lemma decimal_nonempty: "decimal n \<noteq> []"
  by (subst decimal.simps) simp

lemma length_decimal_small: "length (decimal n) = 1 \<longleftrightarrow> n < 10"
  by (subst decimal.simps) (simp add: decimal_nonempty)

lemma aux_less:
  fixes qa ra qb rb :: nat
  assumes "ra < 10" "rb < 10"
  shows "10 * qa + ra < 10 * qb + rb \<longleftrightarrow> qa < qb \<or> (qa = qb \<and> ra < rb)"
  using assms by auto

lemma digits_less:
  fixes a b :: nat
  shows "a < b \<longleftrightarrow> a div 10 < b div 10 \<or> (a div 10 = b div 10 \<and> a mod 10 < b mod 10)"
  using aux_less [of "a mod 10" "b mod 10" "a div 10" "b div 10"] by simp

lemma digits_eq:
  fixes a b :: nat
  shows "a = b \<longleftrightarrow> a div 10 = b div 10 \<and> a mod 10 = b mod 10"
proof
  assume "a div 10 = b div 10 \<and> a mod 10 = b mod 10"
  then have "10 * (a div 10) + a mod 10 = 10 * (b div 10) + b mod 10"
    by simp
  then show "a = b"
    by (simp only: mult_div_mod_eq)
qed simp

lemma decimal_compare:
  "length (decimal a) = length (decimal b) \<Longrightarrow>
   (decimal a < decimal b \<longleftrightarrow> a < b) \<and> (decimal a = decimal b \<longleftrightarrow> a = b)"
proof (induction a arbitrary: b rule: decimal.induct)
  case (1 a)
  show ?case
  proof (cases "a < 10")
    case True
    with "1.prems" have b: "b < 10"
      using length_decimal_small [of a] length_decimal_small [of b] by simp
    from True b have "decimal a = [digit_char a]" "decimal b = [digit_char b]"
      by (simp_all add: decimal.simps)
    with True b show ?thesis
      by (simp add: digit_char_less digit_char_eq)
  next
    case False
    with "1.prems" have b: "\<not> b < 10"
      using length_decimal_small [of a] length_decimal_small [of b] by simp
    from False have da: "decimal a = decimal (a div 10) @ [digit_char (a mod 10)]"
      by (subst decimal.simps) simp
    from b have db: "decimal b = decimal (b div 10) @ [digit_char (b mod 10)]"
      by (subst decimal.simps) simp
    from "1.prems" have len: "length (decimal (a div 10)) = length (decimal (b div 10))"
      by (simp add: da db)
    from "1.IH" [OF False len]
    have ih: "decimal (a div 10) < decimal (b div 10) \<longleftrightarrow> a div 10 < b div 10"
      "decimal (a div 10) = decimal (b div 10) \<longleftrightarrow> a div 10 = b div 10"
      by simp_all
    have "decimal a < decimal b \<longleftrightarrow>
        a div 10 < b div 10 \<or> (a div 10 = b div 10 \<and> a mod 10 < b mod 10)"
      unfolding da db by (simp add: lex_append_iff [OF len] ih digit_char_less)
    moreover have "decimal a = decimal b \<longleftrightarrow> a div 10 = b div 10 \<and> a mod 10 = b mod 10"
      unfolding da db by (simp add: ih digit_char_eq)
    ultimately show ?thesis
      using digits_less [of a b] digits_eq [of a b] by simp
  qed
qed

lemma length_decimal_4: "1000 \<le> n \<Longrightarrow> n < 10000 \<Longrightarrow> length (decimal n) = 4"
proof -
  assume n: "1000 \<le> n" "n < 10000"
  then have a: "\<not> n < 10" "\<not> n div 10 < 10" "\<not> n div 10 div 10 < 10" "n div 10 div 10 div 10 < 10"
    by simp_all
  show ?thesis
    by (simp add: decimal.simps [of n] decimal.simps [of "n div 10"]
        decimal.simps [of "n div 10 div 10"] decimal.simps [of "n div 10 div 10 div 10"] a)
qed

lemma digit_char_is_digit: "n < 10 \<Longrightarrow> is_digit (digit_char n)"
  by (auto simp: eval_nat_numeral less_Suc_eq digit_char_def is_digit_def)

lemma decimal_digits: "list_all is_digit (decimal n)"
proof (induction n rule: decimal.induct)
  case (1 n)
  show ?case
  proof (cases "n < 10")
    case True
    then show ?thesis
      by (simp add: decimal.simps [of n] digit_char_is_digit)
  next
    case False
    with "1.IH" show ?thesis
      by (simp add: decimal.simps [of n] digit_char_is_digit)
  qed
qed

lemma pad2_form:
  "n < 100 \<Longrightarrow> padStart 2 (CHR ''0'') (decimal n) = [digit_char (n div 10), digit_char (n mod 10)]"
proof (cases "n < 10")
  case True
  then show ?thesis
    by (simp add: padStart_def decimal.simps [of n] digit_char_def)
next
  case False
  assume "n < 100"
  with False have "n div 10 < 10" by simp
  with False show ?thesis
    by (simp add: padStart_def decimal.simps [of n] decimal.simps [of "n div 10"])
qed

lemma pad2_compare:
  assumes "a < 100" "b < 100"
  shows "padStart 2 (CHR ''0'') (decimal a) < padStart 2 (CHR ''0'') (decimal b) \<longleftrightarrow> a < b"
    and "padStart 2 (CHR ''0'') (decimal a) = padStart 2 (CHR ''0'') (decimal b) \<longleftrightarrow> a = b"
proof -
  from assms have d: "a div 10 < 10" "b div 10 < 10" "a mod 10 < 10" "b mod 10 < 10"
    by simp_all
  show "padStart 2 (CHR ''0'') (decimal a) < padStart 2 (CHR ''0'') (decimal b) \<longleftrightarrow> a < b"
    using digits_less [of a b]
    by (simp add: pad2_form assms digit_char_less digit_char_eq d)
  show "padStart 2 (CHR ''0'') (decimal a) = padStart 2 (CHR ''0'') (decimal b) \<longleftrightarrow> a = b"
    using digits_eq [of a b]
    by (simp add: pad2_form assms digit_char_eq d)
qed

lemma pad2_digits: "n < 100 \<Longrightarrow> list_all is_digit (padStart 2 (CHR ''0'') (decimal n))"
  by (simp add: pad2_form digit_char_is_digit)

lemma YearFromTime_ge: "DayFromYear y \<le> Day t \<Longrightarrow> y \<le> YearFromTime t"
proof (rule ccontr)
  assume d: "DayFromYear y \<le> Day t" and "\<not> y \<le> YearFromTime t"
  then have "YearFromTime t + 1 \<le> y" by simp
  then have "0 \<le> 365 * (y - (YearFromTime t + 1))"
    by simp
  with DayFromYear_mono [OF \<open>YearFromTime t + 1 \<le> y\<close>]
  have "DayFromYear (YearFromTime t + 1) \<le> DayFromYear y"
    by linarith
  with d YearFromTime_bounds [of t] show False by simp
qed

lemma YearFromTime_lt: "Day t < DayFromYear y \<Longrightarrow> YearFromTime t < y"
  using YearFromTime_bounds [of t] DayFromYear_less [of "YearFromTime t" y] by simp

lemma YearFromTime_mono: "Day t1 \<le> Day t2 \<Longrightarrow> YearFromTime t1 \<le> YearFromTime t2"
  using YearFromTime_bounds [of t1] YearFromTime_ge [of "YearFromTime t1" t2] by simp

lemma fields_of_day:
  assumes "Day t = Day t'"
  shows "YearFromTime t = YearFromTime t'" "MonthFromTime t = MonthFromTime t'"
    "DateFromTime t = DateFromTime t'"
proof -
  from assms show y: "YearFromTime t = YearFromTime t'"
    by (simp add: YearFromTime_def)
  with assms have d: "DayWithinYear t = DayWithinYear t'" and l: "InLeapYear t = InLeapYear t'"
    by (simp_all add: DayWithinYear_def InLeapYear_def)
  then show m: "MonthFromTime t = MonthFromTime t'"
    by (simp add: MonthFromTime_def)
  with d l show "DateFromTime t = DateFromTime t'"
    by (simp add: DateFromTime_def)
qed

lemma iso_form:
  assumes "1000 \<le> YearFromTime t" "YearFromTime t \<le> 9999"
  shows "isoDateUTC (Some t) =
     decimal (nat (YearFromTime t)) @ CHR ''-'' #
       padStart 2 (CHR ''0'') (decimal (nat (MonthFromTime t + 1))) @ CHR ''-'' #
       padStart 2 (CHR ''0'') (decimal (nat (DateFromTime t)))"
  using assms MonthFromTime_range [of t] DateFromTime_range [of t]
  by (simp add: isoDateUTC_def String_int_def Let_def)

lemma iso_is_date:
  assumes "1000 \<le> YearFromTime t" "YearFromTime t \<le> 9999"
  shows "is_iso_date (isoDateUTC (Some t))"
proof -
  let ?y = "decimal (nat (YearFromTime t))"
  let ?m = "padStart 2 (CHR ''0'') (decimal (nat (MonthFromTime t + 1)))"
  let ?d = "padStart 2 (CHR ''0'') (decimal (nat (DateFromTime t)))"
  from assms have ly: "length ?y = 4"
    by (intro length_decimal_4) simp_all
  have mlt: "nat (MonthFromTime t + 1) < 100" and dlt: "nat (DateFromTime t) < 100"
    using MonthFromTime_range [of t] DateFromTime_range [of t] by simp_all
  from mlt have lm: "length ?m = 2" by (simp add: pad2_form)
  from dlt have ld: "length ?d = 2" by (simp add: pad2_form)
  have dy: "list_all is_digit ?y" by (rule decimal_digits)
  from mlt have dm: "list_all is_digit ?m" by (rule pad2_digits)
  from dlt have dd: "list_all is_digit ?d" by (rule pad2_digits)
  show ?thesis
    unfolding iso_form [OF assms] is_iso_date_def
    using ly lm ld dy dm dd by (simp add: nth_append)
qed

lemma iso_less_iff:
  assumes "1000 \<le> YearFromTime s" "YearFromTime s \<le> 9999"
    and "1000 \<le> YearFromTime t" "YearFromTime t \<le> 9999"
  shows "isoDateUTC (Some s) < isoDateUTC (Some t) \<longleftrightarrow>
     YearFromTime s < YearFromTime t \<or>
     (YearFromTime s = YearFromTime t \<and>
      (MonthFromTime s < MonthFromTime t \<or>
       (MonthFromTime s = MonthFromTime t \<and> DateFromTime s < DateFromTime t)))"
proof -
  let ?y = "\<lambda>t. decimal (nat (YearFromTime t))"
  let ?m = "\<lambda>t. padStart 2 (CHR ''0'') (decimal (nat (MonthFromTime t + 1)))"
  let ?d = "\<lambda>t. padStart 2 (CHR ''0'') (decimal (nat (DateFromTime t)))"
  from assms have ly: "length (?y s) = length (?y t)"
    by (simp add: length_decimal_4)
  have mlt: "nat (MonthFromTime u + 1) < 100" and dlt: "nat (DateFromTime u) < 100" for u
    using MonthFromTime_range [of u] DateFromTime_range [of u] by simp_all
  have lm: "length (?m s) = length (?m t)"
    by (simp add: pad2_form mlt)
  from decimal_compare [OF ly] assms
  have y: "?y s < ?y t \<longleftrightarrow> YearFromTime s < YearFromTime t"
    "?y s = ?y t \<longleftrightarrow> YearFromTime s = YearFromTime t"
    by (simp_all add: eq_nat_nat_iff)
  from pad2_compare [OF mlt mlt, of s t] MonthFromTime_range [of s] MonthFromTime_range [of t]
  have m: "?m s < ?m t \<longleftrightarrow> MonthFromTime s < MonthFromTime t"
    "?m s = ?m t \<longleftrightarrow> MonthFromTime s = MonthFromTime t"
    by (auto simp: eq_nat_nat_iff)
  from pad2_compare [OF dlt dlt, of s t] DateFromTime_range [of s] DateFromTime_range [of t]
  have d: "?d s < ?d t \<longleftrightarrow> DateFromTime s < DateFromTime t"
    by auto
  show ?thesis
    unfolding iso_form [OF assms(1,2)] iso_form [OF assms(3,4)]
    by (simp add: lex_append_iff [OF ly] lex_append_iff [OF lm] y m d)
qed

lemma month_mono:
  assumes "InLeapYear s = InLeapYear t" "DayWithinYear s \<le> DayWithinYear t"
  shows "MonthFromTime s \<le> MonthFromTime t"
  using assms InLeapYear_range [of t]
  by (auto simp: MonthFromTime_def Let_def)

lemma civil_less:
  assumes "Day s < Day t"
  shows "YearFromTime s < YearFromTime t \<or>
     (YearFromTime s = YearFromTime t \<and>
      (MonthFromTime s < MonthFromTime t \<or>
       (MonthFromTime s = MonthFromTime t \<and> DateFromTime s < DateFromTime t)))"
proof (cases "YearFromTime s = YearFromTime t")
  case False
  with YearFromTime_mono [of s t] assms show ?thesis by simp
next
  case True
  with assms have l: "InLeapYear s = InLeapYear t" and d: "DayWithinYear s < DayWithinYear t"
    by (simp_all add: InLeapYear_def DayWithinYear_def)
  from month_mono [OF l] d have m: "MonthFromTime s \<le> MonthFromTime t"
    by simp
  show ?thesis
  proof (cases "MonthFromTime s = MonthFromTime t")
    case False
    with m True show ?thesis by simp
  next
    case same: True
    from month_start_date [of s] month_start_date [of t] l d same
    have "DateFromTime s < DateFromTime t"
      by simp
    with True same show ?thesis by simp
  qed
qed

lemma Day_bounds: "Day t * msPerDay \<le> t" "t < Day t * msPerDay + msPerDay"
  using div_floor_bounds [of msPerDay t] by (simp_all add: Day_def msPerDay_def mult.commute)

lemma window_start_in_range:
  assumes "DayFromYear 1000 \<le> Day t" "Day t < DayFromYear 10000"
  shows "TimeClip t = Some t"
proof -
  have a: "DayFromYear 1000 = - 354285" and b: "DayFromYear 10000 = 2932897"
    by (simp_all add: DayFromYear_def)
  from assms a b have "- 354285 \<le> Day t" "Day t \<le> 2932896"
    by simp_all
  then have "- 354285 * msPerDay \<le> Day t * msPerDay" "Day t * msPerDay \<le> 2932896 * msPerDay"
    by (simp_all add: msPerDay_def)
  with Day_bounds [of t] have "- 30610224000000 \<le> t" "t < 253402300800000"
    by (simp_all add: msPerDay_def)
  then show ?thesis
    by (simp add: TimeClip_def)
qed

lemmas date_defs = isoDateUTC_def daysAgoUTC_def setUTCDate_def TimeClip_def MakeDate_def
  MakeDay_def month_start_def DateFromTime_def MonthFromTime_def DayWithinYear_def InLeapYear_def
  YearFromTime_def DayFromYear_def DaysInYear_def Day_def TimeWithinDay_def msPerDay_def
  padStart_def String_int_def digit_char_def decimal.simps Let_def

text \<open>
  The calendar of the code against the calendar of the specification: the first day of a
  year has the same number in both, and the year, the month and the day that the code
  reads from a time value are the one date of the specification that has the number of
  its day.
\<close>

lemma year_length_DaysInYear: "year_length y = DaysInYear y"
  by (auto simp: year_length_def leap_year_def DaysInYear_def)

lemma days_before_year_ge: "1970 \<le> y \<Longrightarrow> sum_list (map year_length [1970..y - 1]) = DayFromYear y"
proof (induction y rule: int_ge_induct)
  case base
  show ?case by (simp add: DayFromYear_def)
next
  case (step y)
  from step.hyps have "[1970..y + 1 - 1] = [1970..y - 1] @ [y]"
    by (simp add: upto_rec2)
  with step.IH show ?case
    by (simp add: DayFromYear_Suc year_length_DaysInYear)
qed

lemma days_before_year_le: "y \<le> 1970 \<Longrightarrow> - sum_list (map year_length [y..1969]) = DayFromYear y"
proof (induction y rule: int_le_induct)
  case base
  show ?case by (simp add: DayFromYear_def)
next
  case (step y)
  from step.hyps have "[y - 1..1969] = (y - 1) # [y..1969]"
    by (simp add: upto_rec1)
  with step.IH DayFromYear_Suc [of "y - 1"] show ?case
    by (simp add: year_length_DaysInYear)
qed

lemma days_before_year_eq: "days_before_year y = DayFromYear y"
  by (simp add: days_before_year_def days_before_year_ge days_before_year_le)

lemma day_number_first: "day_number y 1 1 = DayFromYear y"
  by (simp add: day_number_def days_before_year_eq)

lemma InLeapYear_leap_year: "InLeapYear t = (if leap_year (YearFromTime t) then 1 else 0)"
  by (auto simp: InLeapYear_def DaysInYear_def leap_year_def)

lemma month_cases: "0 \<le> m \<Longrightarrow> m \<le> 11 \<Longrightarrow>
  m = 0 \<or> m = 1 \<or> m = 2 \<or> m = 3 \<or> m = 4 \<or> m = 5 \<or> m = 6 \<or> m = 7 \<or> m = 8 \<or> m = 9 \<or>
  m = 10 \<or> m = (11::int)"
  by arith

lemma months_before:
  assumes "0 \<le> m" "m \<le> 11"
  shows "sum_list (map (month_length y) [1..m]) = month_start m (if leap_year y then 1 else 0)"
  using month_cases [OF assms]
  by (elim disjE) (simp_all add: month_length_def month_start_def upto_rec1)

lemma date_in_month:
  "DateFromTime t \<le> month_length (YearFromTime t) (MonthFromTime t + 1)"
  using DayWithinYear_range [of t] InLeapYear_range [of t]
  by (auto simp: DateFromTime_def MonthFromTime_def Let_def month_length_def InLeapYear_leap_year
      split: if_splits)

lemma civil_of_time:
  "valid_date (YearFromTime t) (MonthFromTime t + 1) (DateFromTime t) \<and>
   day_number (YearFromTime t) (MonthFromTime t + 1) (DateFromTime t) = Day t"
proof -
  have v: "valid_date (YearFromTime t) (MonthFromTime t + 1) (DateFromTime t)"
    using MonthFromTime_range [of t] DateFromTime_range(1) [of t] date_in_month [of t]
    by (simp add: valid_date_def)
  have "day_number (YearFromTime t) (MonthFromTime t + 1) (DateFromTime t) =
      DayFromYear (YearFromTime t) + month_start (MonthFromTime t) (InLeapYear t) +
        (DateFromTime t - 1)"
    using MonthFromTime_range [of t]
    by (simp add: day_number_def days_before_year_eq months_before InLeapYear_leap_year)
  also have "\<dots> = Day t"
    using month_start_date [of t] by (simp add: DayWithinYear_def)
  finally show ?thesis
    using v by simp
qed

lemma month_length_pos: "0 \<le> month_length y m"
  by (simp add: month_length_def)

lemma months_nonneg: "0 \<le> sum_list (map (month_length y) ms)"
  by (rule sum_list_nonneg) (auto simp: month_length_pos)

lemma months_gap:
  assumes "1 \<le> m" "m \<le> n"
  shows "sum_list (map (month_length y) [1..m - 1]) + month_length y m \<le>
     sum_list (map (month_length y) [1..n])"
proof -
  from assms have "[1..n] = [1..m] @ [m + 1..n]"
    by (intro upto_split2) simp_all
  moreover from assms have "[1..m] = [1..m - 1] @ [m]"
    by (simp add: upto_rec2)
  ultimately show ?thesis
    using months_nonneg [of y "[m + 1..n]"] by simp
qed

lemma months_of_year:
  "sum_list (map (month_length y) [1..12]) = year_length y"
  by (simp add: month_length_def year_length_def upto_rec1)

lemma time_of_civil:
  assumes v: "valid_date y m d" and t: "Day t = day_number y m d"
  shows "YearFromTime t = y \<and> MonthFromTime t + 1 = m \<and> DateFromTime t = d"
proof -
  let ?S = "\<lambda>k. sum_list (map (month_length y) [1..k])"
  let ?M = "MonthFromTime t + 1"
  let ?D = "DateFromTime t"
  from v have m: "1 \<le> m" "m \<le> 12" and d: "1 \<le> d" "d \<le> month_length y m"
    by (simp_all add: valid_date_def)
  have dn: "Day t = DayFromYear y + ?S (m - 1) + (d - 1)"
    by (simp add: t day_number_def days_before_year_eq)
  from months_gap [OF m, of y] have "?S (m - 1) + month_length y m \<le> DaysInYear y"
    by (simp add: months_of_year year_length_DaysInYear)
  with d dn months_nonneg [of y "[1..m - 1]"]
  have "DayFromYear y \<le> Day t" "Day t < DayFromYear (y + 1)"
    by (simp_all add: DayFromYear_Suc)
  with YearFromTime_ge [of y t] YearFromTime_lt [of t "y + 1"] have y: "YearFromTime t = y"
    by simp
  from civil_of_time [of t] have v': "valid_date y ?M ?D" and n': "day_number y ?M ?D = Day t"
    by (simp_all add: y)
  from v' have m': "1 \<le> ?M" "?M \<le> 12" and d': "1 \<le> ?D" "?D \<le> month_length y ?M"
    by (simp_all add: valid_date_def)
  from n' dn have eq: "?S (?M - 1) + ?D = ?S (m - 1) + d"
    by (simp add: day_number_def days_before_year_eq)
  have "\<not> m < ?M"
  proof
    assume "m < ?M"
    with m have "m \<le> ?M - 1" by simp
    from months_gap [OF m(1) this, of y] d d' eq show False
      by simp
  qed
  moreover have "\<not> ?M < m"
  proof
    assume "?M < m"
    with m' have "?M \<le> m - 1" by simp
    from months_gap [OF m'(1) this, of y] d d' eq show False
      by simp
  qed
  ultimately have "?M = m" by simp
  with eq y show ?thesis by simp
qed

lemma day_number_inj:
  assumes "valid_date y m d" "valid_date y' m' d'" "day_number y m d = day_number y' m' d'"
  shows "y = y' \<and> m = m' \<and> d = d'"
proof -
  let ?t = "day_number y m d * msPerDay"
  have "Day ?t = day_number y m d" "Day ?t = day_number y' m' d'"
    by (simp_all add: Day_times assms(3))
  from time_of_civil [OF assms(1) this(1)] time_of_civil [OF assms(2) this(2)]
  show ?thesis by simp
qed

text \<open>
  Where the year has four digits, \<open>isoDateUTC\<close> prints the date in the form
  \<open>YYYY-MM-DD\<close>.
\<close>

lemma decimal_two_digits:
  "n < 100 \<Longrightarrow> padStart 2 (CHR ''0'') (decimal n) = two_digits (int n)"
  by (simp add: pad2_form two_digits_def nat_div_distrib nat_mod_distrib)

lemma decimal_four_digits:
  assumes "1000 \<le> n" "n < 10000"
  shows "decimal n = four_digits (int n)"
proof -
  from assms have r: "\<not> n < 10" "\<not> n div 10 < 10" "\<not> n div 100 < 10" "n div 1000 < 10"
    by simp_all
  have 1: "decimal n = decimal (n div 10) @ [digit_char (n mod 10)]"
    using r(1) by (simp add: decimal.simps [of n])
  have 2: "decimal (n div 10) = decimal (n div 100) @ [digit_char (n div 10 mod 10)]"
    using r(2) by (simp add: decimal.simps [of "n div 10"] div_mult2_eq [symmetric])
  have 3: "decimal (n div 100) = decimal (n div 1000) @ [digit_char (n div 100 mod 10)]"
    using r(3) by (simp add: decimal.simps [of "n div 100"] div_mult2_eq [symmetric])
  have 4: "decimal (n div 1000) = [digit_char (n div 1000)]"
    using r(4) by (simp add: decimal.simps [of "n div 1000"])
  from r(4) have 5: "n div 1000 mod 10 = n div 1000"
    by simp
  have "four_digits (int n) =
      [digit_char (n div 1000 mod 10), digit_char (n div 100 mod 10),
       digit_char (n div 10 mod 10), digit_char (n mod 10)]"
    by (simp add: four_digits_def two_digits_def nat_div_distrib nat_mod_distrib
        div_mult2_eq [symmetric])
  then show ?thesis
    by (simp add: 1 2 3 4 5)
qed

lemma iso_date_string:
  assumes "1000 \<le> YearFromTime t" "YearFromTime t \<le> 9999"
  shows "isoDateUTC (Some t) =
     date_string (YearFromTime t) (MonthFromTime t + 1) (DateFromTime t)"
proof -
  from assms have y: "decimal (nat (YearFromTime t)) = four_digits (YearFromTime t)"
    using decimal_four_digits [of "nat (YearFromTime t)"] by simp
  have m: "padStart 2 (CHR ''0'') (decimal (nat (MonthFromTime t + 1))) = two_digits (MonthFromTime t + 1)"
    using MonthFromTime_range [of t] decimal_two_digits [of "nat (MonthFromTime t + 1)"] by simp
  have d: "padStart 2 (CHR ''0'') (decimal (nat (DateFromTime t))) = two_digits (DateFromTime t)"
    using DateFromTime_range [of t] decimal_two_digits [of "nat (DateFromTime t)"] by simp
  show ?thesis
    by (simp add: iso_form [OF assms] y m d date_string_def)
qed

text \<open>
  Claim C9 says that for every current date the two strings are the dates of the current
  UTC day and of the day \<open>period + 2\<close> days before it, formatted as \<open>YYYY-MM-DD\<close>,
  and that the start is lexicographically less than the end. The comment of
  \<open>isoDateUTC\<close> says \<open>YYYY-MM-DD\<close> too, and the function pads the month and the day
  to two digits, but it prints the year as it is. On the first day of the year 10000 the
  window for seven days starts in 9999, the end has eleven characters, and the start is
  not less than the end.
\<close>

theorem window_year_10000:
  "valid_date 10000 1 1 \<and> day_number 10000 1 1 = Day year_10000 \<and>
   windowFor year_10000 year_10000 P7 = \<lparr>startISO = ''9999-12-23'', endISO = ''10000-01-01''\<rparr> \<and>
   \<not> ''9999-12-23'' < ''10000-01-01'' \<and> \<not> is_iso_date ''10000-01-01''"
proof (intro conjI)
  show "valid_date 10000 1 1"
    by (simp add: valid_date_def month_length_def)
  show "day_number 10000 1 1 = Day year_10000"
    by (simp add: day_number_first DayFromYear_def Day_def year_10000_def msPerDay_def)
  show "windowFor year_10000 year_10000 P7 =
      \<lparr>startISO = ''9999-12-23'', endISO = ''10000-01-01''\<rparr>"
    by (simp add: windowFor_def year_10000_def date_defs)
  show "\<not> ''9999-12-23'' < ''10000-01-01''"
    by simp
  show "\<not> is_iso_date ''10000-01-01''"
    by (simp add: is_iso_date_def)
qed

text \<open>
  Within the years 1000 to 9999 the window is the one of the specification. For every
  period in 7, 30 and 90, when the two readings of the clock fall on the same UTC day,
  the start is not before the first day of 1000 and the end is before the first day of
  10000:
  \<open>endISO\<close> is the date of the current UTC day and \<open>startISO\<close> is the date of the
  day \<open>period + 2\<close> days earlier, both in the form \<open>YYYY-MM-DD\<close>, and \<open>startISO\<close>
  is lexicographically less than \<open>endISO\<close>. The date of a day is the one valid date
  whose day number, counted in the calendar of the specification, is the number of the
  day.
\<close>

lemma window_dates:
  assumes same: "Day now_start = Day now_end"
    and lo: "day_number 1000 1 1 \<le> Day now_end - (period_days period + 2)"
    and hi: "Day now_end < day_number 10000 1 1"
  shows "\<exists>y m d y' m' d'.
     valid_date y m d \<and> day_number y m d = Day now_end \<and>
     endISO (windowFor now_end now_start period) = date_string y m d \<and>
     valid_date y' m' d' \<and> day_number y' m' d' = Day now_end - (period_days period + 2) \<and>
     startISO (windowFor now_end now_start period) = date_string y' m' d' \<and>
     is_iso_date (startISO (windowFor now_end now_start period)) \<and>
     is_iso_date (endISO (windowFor now_end now_start period)) \<and>
     startISO (windowFor now_end now_start period) < endISO (windowFor now_end now_start period)"
proof -
  define k where "k = period_days period + 2"
  define t where "t = now_start - k * msPerDay"
  have kpos: "0 < k"
    using period_days_pos [of period] by (simp add: k_def)
  have dt: "Day t = Day now_end - k"
    using Day_shift [of now_start "- k"] same by (simp add: t_def)
  with lo hi kpos have range: "DayFromYear 1000 \<le> Day t" "Day t < DayFromYear 10000"
    by (simp_all add: k_def day_number_first)
  have start: "daysAgoUTC now_start k = Some t"
    by (simp add: daysAgoUTC_shift t_def [symmetric] window_start_in_range [OF range])
  have w: "windowFor now_end now_start period =
      \<lparr>startISO = isoDateUTC (Some t), endISO = isoDateUTC (Some now_end)\<rparr>"
    by (simp add: windowFor_def Let_def k_def [symmetric] start)
  have yt: "1000 \<le> YearFromTime t" "YearFromTime t \<le> 9999"
    using YearFromTime_ge [OF range(1)] YearFromTime_lt [OF range(2)] by simp_all
  from lo kpos have "DayFromYear 1000 \<le> Day now_end"
    by (simp add: k_def day_number_first)
  then have ye: "1000 \<le> YearFromTime now_end" "YearFromTime now_end \<le> 9999"
    using YearFromTime_ge [of 1000 now_end] YearFromTime_lt [of now_end 10000] hi
    by (simp_all add: day_number_first)
  from dt kpos have "Day t < Day now_end"
    by simp
  from civil_less [OF this] have less: "isoDateUTC (Some t) < isoDateUTC (Some now_end)"
    by (simp only: iso_less_iff [OF yt ye])
  note ce = civil_of_time [of now_end] and ct = civil_of_time [of t]
  have 1: "endISO (windowFor now_end now_start period) =
      date_string (YearFromTime now_end) (MonthFromTime now_end + 1) (DateFromTime now_end)"
    by (simp add: w iso_date_string [OF ye])
  have 2: "startISO (windowFor now_end now_start period) =
      date_string (YearFromTime t) (MonthFromTime t + 1) (DateFromTime t)"
    by (simp add: w iso_date_string [OF yt])
  have 3: "day_number (YearFromTime t) (MonthFromTime t + 1) (DateFromTime t) =
      Day now_end - (period_days period + 2)"
    using ct by (simp add: dt k_def)
  have 4: "is_iso_date (startISO (windowFor now_end now_start period))"
    "is_iso_date (endISO (windowFor now_end now_start period))"
    "startISO (windowFor now_end now_start period) < endISO (windowFor now_end now_start period)"
    using less iso_is_date [OF yt] iso_is_date [OF ye] by (simp_all add: w)
  show ?thesis
    by (rule exI [of _ "YearFromTime now_end"], rule exI [of _ "MonthFromTime now_end + 1"],
        rule exI [of _ "DateFromTime now_end"], rule exI [of _ "YearFromTime t"],
        rule exI [of _ "MonthFromTime t + 1"], rule exI [of _ "DateFromTime t"])
      (intro conjI ce [THEN conjunct1] ce [THEN conjunct2] ct [THEN conjunct1] 1 2 3 4)
qed

text \<open>
  The second of November 2024, with a second reading of the clock one millisecond later,
  and the window for thirty days.
\<close>

lemma window_dates_witness:
  "Day 1730505600001 = Day 1730505600000 \<and>
   day_number 1000 1 1 \<le> Day 1730505600000 - (period_days P30 + 2) \<and>
   Day 1730505600000 < day_number 10000 1 1 \<and>
   windowFor 1730505600000 1730505600001 P30 =
     \<lparr>startISO = ''2024-10-01'', endISO = ''2024-11-02''\<rparr> \<and>
   valid_date 2024 11 2 \<and> day_number 2024 11 2 = Day 1730505600000 \<and>
   date_string 2024 11 2 = ''2024-11-02'' \<and>
   valid_date 2024 10 1 \<and> day_number 2024 10 1 = Day 1730505600000 - (period_days P30 + 2) \<and>
   date_string 2024 10 1 = ''2024-10-01'' \<and>
   is_iso_date ''2024-10-01'' \<and> is_iso_date ''2024-11-02'' \<and> ''2024-10-01'' < ''2024-11-02''"
proof -
  let ?w = "windowFor 1730505600000 1730505600001 P30"
  have 1: "Day 1730505600001 = Day 1730505600000"
    by (simp add: Day_def msPerDay_def)
  have 2: "day_number 1000 1 1 \<le> Day 1730505600000 - (period_days P30 + 2)"
    by (simp add: day_number_first Day_def msPerDay_def DayFromYear_def)
  have 3: "Day 1730505600000 < day_number 10000 1 1"
    by (simp add: day_number_first Day_def msPerDay_def DayFromYear_def)
  have ve: "valid_date 2024 11 2" and vs: "valid_date 2024 10 1"
    by (simp_all add: valid_date_def month_length_def)
  have ne: "day_number 2024 11 2 = Day 1730505600000"
    and ns: "day_number 2024 10 1 = Day 1730505600000 - (period_days P30 + 2)"
    by (simp_all add: day_number_def days_before_year_eq DayFromYear_def month_length_def
        leap_year_def upto_rec1 Day_def msPerDay_def)
  have se: "date_string 2024 11 2 = ''2024-11-02''" and ss: "date_string 2024 10 1 = ''2024-10-01''"
    by (simp_all add: date_string_def four_digits_def two_digits_def digit_char_def)
  from window_dates [OF 1 2 3] obtain y m d y' m' d' where
    e: "valid_date y m d" "day_number y m d = Day 1730505600000" "endISO ?w = date_string y m d"
    and s: "valid_date y' m' d'" "day_number y' m' d' = Day 1730505600000 - (period_days P30 + 2)"
      "startISO ?w = date_string y' m' d'"
    and r: "is_iso_date (startISO ?w)" "is_iso_date (endISO ?w)" "startISO ?w < endISO ?w"
    by blast
  from day_number_inj [OF e(1) ve] e(2) ne have "y = 2024 \<and> m = 11 \<and> d = 2"
    by simp
  with e(3) se have ee: "endISO ?w = ''2024-11-02''"
    by simp
  from day_number_inj [OF s(1) vs] s(2) ns have "y' = 2024 \<and> m' = 10 \<and> d' = 1"
    by simp
  with s(3) ss have es: "startISO ?w = ''2024-10-01''"
    by simp
  from ee es have "?w = \<lparr>startISO = ''2024-10-01'', endISO = ''2024-11-02''\<rparr>"
    by (cases ?w) simp
  with 1 2 3 ve vs ne ns se ss r ee es show ?thesis
    by simp
qed

end
